theory Spec2Isabelle
  imports Main "HOL-Library.Multiset" "HOL-Library.Option_ord" "HOL-Library.Sublist"
begin

section \<open>The note entity\<close>

text \<open>
  \<^verbatim>\<open>src/services/notes.ts\<close>, type \<^verbatim>\<open>Note\<close>. Timestamps are ISO-8601 texts, as the
  persistence service returns them; \<^verbatim>\<open>tags\<close> and \<^verbatim>\<open>deleted_at\<close> may be \<^verbatim>\<open>null\<close>.
  The field \<^verbatim>\<open>id\<close> is called \<open>note_id\<close> here, since \<open>id\<close> is the identity function of HOL.
\<close>

record Note =
  note_id :: string
  title :: string
  body :: string
  tags :: "string list option"
  created_at :: string
  updated_at :: string
  deleted_at :: "string option"

section \<open>Tag usage\<close>

text \<open>
  \<^verbatim>\<open>calculateTagUsage\<close> of the home screen (\<^verbatim>\<open>src/app/(tabs)/_layout.tsx\<close>):
  \<^verbatim>\<open>
  const tagUsage: Record<string, number> = {};
  notes.forEach(note => {
      if (note.tags && Array.isArray(note.tags)) {
          note.tags.forEach(tag => {
              tagUsage[tag] = (tagUsage[tag] || 0) + 1;
          });
      }
  });
  return tagUsage;
  \<close>
  The accumulator is an ordinary object literal, so a read \<^verbatim>\<open>tagUsage[tag]\<close> falls through
  to \<^verbatim>\<open>Object.prototype\<close> when the object has no property of that name of its own. What is
  found there is a function (an object for \<^verbatim>\<open>__proto__\<close>), which is truthy, and \<^verbatim>\<open>+ 1\<close> on it
  is string concatenation: the entry then holds a text and stays one. The model keeps what a
  read of the object yields: a count, or \<open>NotACount\<close> for every such non-numeric value;
  \<open>None\<close> is \<^verbatim>\<open>undefined\<close>.
\<close>

datatype usage = Count nat | NotACount

definition objectPrototypeKeys :: "string list" where
  "objectPrototypeKeys =
     [''constructor'', ''hasOwnProperty'', ''isPrototypeOf'', ''propertyIsEnumerable'',
      ''toLocaleString'', ''toString'', ''valueOf'', ''__proto__'',
      ''__defineGetter__'', ''__defineSetter__'', ''__lookupGetter__'', ''__lookupSetter__'']"

definition emptyObject :: "string \<rightharpoonup> usage" where
  \<comment> \<open>the reads of \<^verbatim>\<open>{}\<close>\<close>
  "emptyObject = (\<lambda>k. if k \<in> set objectPrototypeKeys then Some NotACount else None)"

definition orZero :: "usage option \<Rightarrow> usage" where
  \<comment> \<open>\<^verbatim>\<open>v || 0\<close>: \<^verbatim>\<open>undefined\<close> and \<^verbatim>\<open>0\<close> are falsy\<close>
  "orZero v = (case v of None \<Rightarrow> Count 0 | Some u \<Rightarrow> u)"

definition plusOne :: "usage \<Rightarrow> usage" where
  \<comment> \<open>\<^verbatim>\<open>v + 1\<close>: addition on a number, concatenation otherwise\<close>
  "plusOne u = (case u of Count n \<Rightarrow> Count (n + 1) | NotACount \<Rightarrow> NotACount)"

definition countTag :: "(string \<rightharpoonup> usage) \<Rightarrow> string \<Rightarrow> (string \<rightharpoonup> usage)" where
  \<comment> \<open>\<^verbatim>\<open>tagUsage[tag] = (tagUsage[tag] || 0) + 1\<close>\<close>
  "countTag tagUsage tag = tagUsage(tag \<mapsto> plusOne (orZero (tagUsage tag)))"

definition countNote :: "(string \<rightharpoonup> usage) \<Rightarrow> Note \<Rightarrow> (string \<rightharpoonup> usage)" where
  \<comment> \<open>the body of the outer \<^verbatim>\<open>forEach\<close>\<close>
  "countNote tagUsage n =
     (case tags n of None \<Rightarrow> tagUsage | Some ts \<Rightarrow> foldl countTag tagUsage ts)"

definition calculateTagUsage :: "Note list \<Rightarrow> (string \<rightharpoonup> usage)" where
  "calculateTagUsage notes = foldl countNote emptyObject notes"

text \<open>What the counts are compared with: occurrences of a tag, and notes carrying a tag.\<close>

definition occurrences :: "string \<Rightarrow> Note list \<Rightarrow> nat" where
  "occurrences tag notes =
     sum_list (map (\<lambda>n. case tags n of None \<Rightarrow> 0 | Some ts \<Rightarrow> count_list ts tag) notes)"

definition carries :: "string \<Rightarrow> Note \<Rightarrow> bool" where
  "carries tag n = (case tags n of None \<Rightarrow> False | Some ts \<Rightarrow> tag \<in> set ts)"

definition distinctTags :: "Note \<Rightarrow> bool" where
  "distinctTags n = (case tags n of None \<Rightarrow> True | Some ts \<Rightarrow> distinct ts)"

definition tagged :: "string list option \<Rightarrow> Note" where
  \<comment> \<open>a note of the scenarios, of which only the tags matter\<close>
  "tagged ts = \<lparr>note_id = ''n'', title = ''t'', body = [], tags = ts,
                created_at = ''2024-01-01T00:00:00.000Z'',
                updated_at = ''2024-01-01T00:00:00.000Z'', deleted_at = None\<rparr>"

section \<open>The persistence service\<close>

text \<open>
  Modelled from the spec: the persistence service of section 6, which the repository reaches
  through the client of \<^verbatim>\<open>src/services/supabase.ts\<close> (not among the sources). It holds one
  table of notes and answers four verbs, of which the repository functions below use three:
  \<^verbatim>\<open>select(filter, order)\<close>, \<^verbatim>\<open>insert(record)\<close> and \<^verbatim>\<open>updateWhere(filter, patch)\<close>. A request
  either fails as a whole with an error of the service (a code and a message) or is answered
  with the matching records. The filters are the two that the repository sends: by id
  (\<^verbatim>\<open>.eq('id', id)\<close>), and \<^verbatim>\<open>.is('deleted_at', value)\<close>, which the client writes into the request
  as \<^verbatim>\<open>deleted_at=is.\<close> followed by the value. The service reads \<^verbatim>\<open>is.null\<close> as the test for
  null. Its own filter for not null is \<^verbatim>\<open>not.is.null\<close>; \<^verbatim>\<open>not.null\<close> is no operand of \<^verbatim>\<open>is\<close>, and a
  request that carries an operand the service does not read is refused as a whole. An update
  applies exactly the patch and touches no other column: the table, as the project's set-up
  instructions create it, fills \<^verbatim>\<open>created_at\<close> and \<^verbatim>\<open>updated_at\<close> by the default \<^verbatim>\<open>NOW()\<close> on
  insertion only. The access policies of a deployment are not part of the model.
\<close>

record ServiceError =
  err_code :: string
  err_message :: string

record service =
  rows :: "Note list"
  \<comment> \<open>the error every request meets while the service is unreachable or failing\<close>
  failing :: "ServiceError option"

datatype operand = Null | Text string

datatype rowFilter = Eq_id string | Is_deleted_at operand

definition written :: "operand \<Rightarrow> string" where
  \<comment> \<open>the value of \<^verbatim>\<open>.is(column, value)\<close> as the client writes it after \<^verbatim>\<open>is.\<close>\<close>
  "written v = (case v of Null \<Rightarrow> ''null'' | Text t \<Rightarrow> t)"

definition notParsed :: "string \<Rightarrow> ServiceError" where
  "notParsed w = \<lparr>err_code = ''PGRST100'',
                   err_message = ''failed to parse filter (is.'' @ w @ '')''\<rparr>"

fun reads :: "rowFilter \<Rightarrow> ServiceError + (Note \<Rightarrow> bool)" where
  \<comment> \<open>the condition the service reads from a filter, or its refusal\<close>
  "reads (Eq_id i) = Inr (\<lambda>n. note_id n = i)"
| "reads (Is_deleted_at v) =
     (if written v = ''null'' then Inr (\<lambda>n. deleted_at n = None) else Inl (notParsed (written v)))"

fun parseFilters :: "rowFilter list \<Rightarrow> ServiceError + (Note \<Rightarrow> bool)" where
  \<comment> \<open>all filters of a request must hold; the first that is not read refuses the request\<close>
  "parseFilters [] = Inr (\<lambda>n. True)"
| "parseFilters (f # fs) =
     (case reads f of
        Inl e \<Rightarrow> Inl e
      | Inr p \<Rightarrow> (case parseFilters fs of Inl e \<Rightarrow> Inl e | Inr q \<Rightarrow> Inr (\<lambda>n. p n \<and> q n)))"

datatype column = Updated_at | Deleted_at

fun columnValue :: "column \<Rightarrow> Note \<Rightarrow> string option" where
  "columnValue Updated_at n = Some (updated_at n)"
| "columnValue Deleted_at n = deleted_at n"

definition orderDescending :: "(string \<Rightarrow> int) \<Rightarrow> column \<Rightarrow> Note list \<Rightarrow> Note list" where
  \<comment> \<open>\<^verbatim>\<open>.order(column, { ascending: false })\<close>: latest first, by the instant a timestamp denotes;
      nulls first; records with equal timestamps stay in table order\<close>
  "orderDescending instant c ns =
     sort_key (\<lambda>n. map_option (\<lambda>t. - instant t) (columnValue c n)) ns"

definition select :: "rowFilter list \<Rightarrow> ((string \<Rightarrow> int) \<times> column) option \<Rightarrow> service
    \<Rightarrow> ServiceError + Note list" where
  \<comment> \<open>an order is a column together with the reading of timestamps as instants\<close>
  "select fs ord svc =
     (case failing svc of
        Some e \<Rightarrow> Inl e
      | None \<Rightarrow>
          (case parseFilters fs of
             Inl e \<Rightarrow> Inl e
           | Inr matching \<Rightarrow>
               (let found = filter matching (rows svc)
                in Inr (case ord of
                          None \<Rightarrow> found
                        | Some (instant, c) \<Rightarrow> orderDescending instant c found))))"

record RowPatch =
  set_title :: "string option"
  set_body :: "string option"
  set_tags :: "string list option option"
  set_deleted_at :: "string option option"

definition applyPatch :: "RowPatch \<Rightarrow> Note \<Rightarrow> Note" where
  "applyPatch p n =
     n\<lparr>title := (case set_title p of None \<Rightarrow> title n | Some v \<Rightarrow> v),
       body := (case set_body p of None \<Rightarrow> body n | Some v \<Rightarrow> v),
       tags := (case set_tags p of None \<Rightarrow> tags n | Some v \<Rightarrow> v),
       deleted_at := (case set_deleted_at p of None \<Rightarrow> deleted_at n | Some v \<Rightarrow> v)\<rparr>"

definition updateWhere :: "rowFilter list \<Rightarrow> RowPatch \<Rightarrow> service
    \<Rightarrow> (ServiceError + Note list) \<times> service" where
  \<comment> \<open>answers with the updated records\<close>
  "updateWhere fs p svc =
     (case failing svc of
        Some e \<Rightarrow> (Inl e, svc)
      | None \<Rightarrow>
          (case parseFilters fs of
             Inl e \<Rightarrow> (Inl e, svc)
           | Inr matching \<Rightarrow>
               (Inr (map (applyPatch p) (filter matching (rows svc))),
                svc\<lparr>rows := map (\<lambda>n. if matching n then applyPatch p n else n) (rows svc)\<rparr>)))"

record NewNote =
  new_title :: string
  new_body :: string
  new_tags :: "string list option"
  new_deleted_at :: "string option"

definition insert_row :: "string \<Rightarrow> string \<Rightarrow> NewNote \<Rightarrow> service
    \<Rightarrow> (ServiceError + Note list) \<times> service" where
  \<comment> \<open>the service generates the id and both timestamps (the time of the insertion)\<close>
  "insert_row newId nowIso p svc =
     (case failing svc of
        Some e \<Rightarrow> (Inl e, svc)
      | None \<Rightarrow>
          (let n = \<lparr>note_id = newId, title = new_title p, body = new_body p, tags = new_tags p,
                    created_at = nowIso, updated_at = nowIso, deleted_at = new_deleted_at p\<rparr>
           in (Inr [n], svc\<lparr>rows := rows svc @ [n]\<rparr>)))"

definition noSingleRow :: ServiceError where
  "noSingleRow = \<lparr>err_code = ''PGRST116'',
                  err_message = ''JSON object requested, multiple (or no) rows returned''\<rparr>"

definition single :: "ServiceError + Note list \<Rightarrow> ServiceError + Note" where
  \<comment> \<open>\<^verbatim>\<open>.single()\<close>: exactly one record, or the error with code PGRST116\<close>
  "single r = (case r of Inl e \<Rightarrow> Inl e | Inr [n] \<Rightarrow> Inr n | Inr _ \<Rightarrow> Inl noSingleRow)"

section \<open>The note repository\<close>

text \<open>
  \<^verbatim>\<open>src/services/notes.ts\<close>. Every function throws a plain \<^verbatim>\<open>Error\<close>, told apart by its
  message only; a function that writes returns the service as it leaves it.
\<close>

datatype error = Error string

definition NotFoundError :: error where
  "NotFoundError = Error ''Note not found''"

definition ValidationError :: "error set" where
  "ValidationError =
     {Error ''Note ID is required'', Error ''Title is required'', Error ''Title cannot be empty''}"

definition orElse :: "string \<Rightarrow> string \<Rightarrow> string" where
  \<comment> \<open>\<^verbatim>\<open>error.message || fallback\<close>\<close>
  "orElse m fallback = (if m = [] then fallback else m)"

definition isSpace :: "char \<Rightarrow> bool" where
  \<comment> \<open>white space and line terminators of \<^verbatim>\<open>String.prototype.trim\<close>, among the first 256 code units\<close>
  "isSpace c = (c \<in> set [CHR 0x09, CHR 0x0A, CHR 0x0B, CHR 0x0C, CHR 0x0D, CHR 0x20, CHR 0xA0])"

definition trim :: "string \<Rightarrow> string" where
  "trim s = rev (dropWhile isSpace (rev (dropWhile isSpace s)))"

definition listNotes :: "(string \<Rightarrow> int) \<Rightarrow> service \<Rightarrow> error + Note list" where
  "listNotes instant svc =
     (case select [Is_deleted_at Null] (Some (instant, Updated_at)) svc of
        Inl e \<Rightarrow> Inl (Error (orElse (err_message e) ''Failed to fetch notes''))
      | Inr data \<Rightarrow> Inr data)"

definition getNote :: "string \<Rightarrow> service \<Rightarrow> error + Note" where
  "getNote i svc =
     (if i = [] then Inl (Error ''Note ID is required'')
      else case single (select [Eq_id i, Is_deleted_at Null] None svc) of
             Inl e \<Rightarrow>
               (if err_code e = ''PGRST116'' then Inl (Error ''Note not found'')
                else Inl (Error (orElse (err_message e) ''Failed to fetch note'')))
           | Inr data \<Rightarrow> Inr data)"

record CreateInput =
  in_title :: string
  in_body :: string
  in_tags :: "string list option"

definition createNote :: "string \<Rightarrow> string \<Rightarrow> CreateInput \<Rightarrow> service \<Rightarrow> (error + Note) \<times> service" where
  \<comment> \<open>\<open>newId\<close> and \<open>nowIso\<close> are what the service generates for this insertion\<close>
  "createNote newId nowIso input svc =
     (let payload = \<lparr>new_title = trim (in_title input), new_body = trim (in_body input),
                      new_tags = in_tags input, new_deleted_at = None\<rparr>
      in if new_title payload = [] then (Inl (Error ''Title is required''), svc)
         else case insert_row newId nowIso payload svc of
                (r, svc') \<Rightarrow>
                  (case single r of
                     Inl e \<Rightarrow> (Inl (Error (orElse (err_message e) ''Failed to create note'')), svc')
                   | Inr data \<Rightarrow> (Inr data, svc')))"

record NotePatch =
  \<comment> \<open>\<^verbatim>\<open>Partial<Pick<Note, 'title' | 'body' | 'tags'>>\<close>: \<open>None\<close> is \<^verbatim>\<open>undefined\<close>\<close>
  patch_title :: "string option"
  patch_body :: "string option"
  patch_tags :: "string list option option"

definition updateNote :: "string \<Rightarrow> NotePatch \<Rightarrow> service \<Rightarrow> (error + Note) \<times> service" where
  "updateNote i patch svc =
     (if i = [] then (Inl (Error ''Note ID is required''), svc)
      else
        (let updateData = \<lparr>set_title = map_option trim (patch_title patch),
                           set_body = map_option trim (patch_body patch),
                           set_tags = patch_tags patch,
                           set_deleted_at = None\<rparr>
         in if set_title updateData = Some [] then (Inl (Error ''Title cannot be empty''), svc)
            else case updateWhere [Eq_id i, Is_deleted_at Null] updateData svc of
                   (r, svc') \<Rightarrow>
                     (case single r of
                        Inl e \<Rightarrow>
                          (if err_code e = ''PGRST116'' then (Inl (Error ''Note not found''), svc')
                           else (Inl (Error (orElse (err_message e) ''Failed to update note'')), svc'))
                      | Inr data \<Rightarrow> (Inr data, svc'))))"

definition deleteNote :: "string \<Rightarrow> string \<Rightarrow> service \<Rightarrow> (error + bool) \<times> service" where
  \<comment> \<open>\<open>nowIso\<close> is \<^verbatim>\<open>new Date().toISOString()\<close>; the answer's records are not asked for\<close>
  "deleteNote i nowIso svc =
     (if i = [] then (Inl (Error ''Note ID is required''), svc)
      else case updateWhere [Eq_id i, Is_deleted_at Null]
                  \<lparr>set_title = None, set_body = None, set_tags = None,
                   set_deleted_at = Some (Some nowIso)\<rparr> svc of
             (Inl e, svc') \<Rightarrow> (Inl (Error (orElse (err_message e) ''Failed to delete note'')), svc')
           | (Inr _, svc') \<Rightarrow> (Inr True, svc'))"

definition restoreNote :: "string \<Rightarrow> service \<Rightarrow> (error + Note) \<times> service" where
  \<comment> \<open>\<^verbatim>\<open>.is('deleted_at', 'not.null')\<close>, "Only restore if actually deleted". No code of the
      service gets a message of its own here: the service's message is thrown.\<close>
  "restoreNote i svc =
     (if i = [] then (Inl (Error ''Note ID is required''), svc)
      else case updateWhere [Eq_id i, Is_deleted_at (Text ''not.null'')]
                  \<lparr>set_title = None, set_body = None, set_tags = None,
                   set_deleted_at = Some None\<rparr> svc of
             (r, svc') \<Rightarrow>
               (case single r of
                  Inl e \<Rightarrow> (Inl (Error (orElse (err_message e) ''Failed to restore note'')), svc')
                | Inr data \<Rightarrow> (Inr data, svc')))"

definition listDeletedNotes :: "(string \<Rightarrow> int) \<Rightarrow> service \<Rightarrow> error + Note list" where
  \<comment> \<open>\<^verbatim>\<open>.is('deleted_at', 'not.null')\<close>, as in \<^verbatim>\<open>restoreNote\<close>\<close>
  "listDeletedNotes instant svc =
     (case select [Is_deleted_at (Text ''not.null'')] (Some (instant, Deleted_at)) svc of
        Inl e \<Rightarrow> Inl (Error (orElse (err_message e) ''Failed to fetch deleted notes''))
      | Inr data \<Rightarrow> Inr data)"

text \<open>What the claims about the repository speak of.\<close>

definition active :: "Note \<Rightarrow> bool" where
  "active n = (deleted_at n = None)"

definition uniqueIds :: "service \<Rightarrow> bool" where
  \<comment> \<open>the id is the primary key of the table\<close>
  "uniqueIds svc = distinct (map note_id (rows svc))"

definition latestFirst :: "(string \<Rightarrow> int) \<Rightarrow> string list \<Rightarrow> bool" where
  "latestFirst instant ts = sorted_wrt (\<lambda>a b. instant b \<le> instant a) ts"

section \<open>The query pipeline\<close>

text \<open>
  The home screen of \<^verbatim>\<open>src/app/(tabs)/_layout.tsx\<close>; the types of the criteria are those of
  \<^verbatim>\<open>src/components/FilterModal.tsx\<close>.
\<close>

datatype SortOption = Recent | Alphabetical | MostEdited | Oldest

datatype DateFilter = AllDates | Today | ThisWeek | ThisMonth

record FilterOptions =
  sortBy :: SortOption
  dateFilter :: DateFilter
  selectedTags :: "string list"
  withTagsOnly :: bool
  longNotesOnly :: bool

text \<open>
  What the pipeline takes from the JavaScript runtime and its locale. Times are milliseconds
  since the epoch, as \<^verbatim>\<open>getTime()\<close> gives them; \<open>None\<close> is \<^verbatim>\<open>NaN\<close>, the time of an
  \<^verbatim>\<open>Invalid Date\<close>.
\<close>

record runtime =
  \<comment> \<open>\<^verbatim>\<open>new Date(text).getTime()\<close>\<close>
  parseDate :: "string \<Rightarrow> int option"
  \<comment> \<open>\<^verbatim>\<open>new Date(d.getFullYear(), d.getMonth(), d.getDate()).getTime()\<close>: local midnight of the day of \<open>d\<close>\<close>
  startOfDay :: "int \<Rightarrow> int"
  \<comment> \<open>\<^verbatim>\<open>a.localeCompare(b)\<close>\<close>
  localeCompare :: "string \<Rightarrow> string \<Rightarrow> int"
  \<comment> \<open>\<^verbatim>\<open>s.toLowerCase()\<close>\<close>
  toLowerCase :: "string \<Rightarrow> string"

subsection \<open>Arrays\<close>

text \<open>
  Arrays are objects that the screen's state and the stages of the pipeline share by
  reference, and \<^verbatim>\<open>Array.prototype.sort\<close> sorts in place. The arrays therefore live in a
  store; references below \<open>fresh\<close> are the allocated ones.
\<close>

type_synonym ref = nat

record heap =
  cells :: "ref \<Rightarrow> Note list"
  fresh :: ref

definition alloc :: "Note list \<Rightarrow> heap \<Rightarrow> ref \<times> heap" where
  "alloc xs h = (fresh h, h\<lparr>cells := (cells h)(fresh h := xs), fresh := Suc (fresh h)\<rparr>)"

definition arrayFilter :: "(Note \<Rightarrow> bool) \<Rightarrow> ref \<Rightarrow> heap \<Rightarrow> ref \<times> heap" where
  \<comment> \<open>\<^verbatim>\<open>array.filter(p)\<close>: a new array\<close>
  "arrayFilter p r h = alloc (filter p (cells h r)) h"

definition arrayCopy :: "ref \<Rightarrow> heap \<Rightarrow> ref \<times> heap" where
  \<comment> \<open>\<^verbatim>\<open>[...array]\<close>: a new array\<close>
  "arrayCopy r h = alloc (cells h r) h"

definition sortCompare :: "('a \<Rightarrow> 'a \<Rightarrow> int option) \<Rightarrow> 'a \<Rightarrow> 'a \<Rightarrow> int" where
  \<comment> \<open>the comparator as the sort reads it: \<^verbatim>\<open>NaN\<close> counts as \<open>0\<close>\<close>
  "sortCompare cmp a b = (case cmp a b of None \<Rightarrow> 0 | Some v \<Rightarrow> v)"

fun insertSorted :: "('a \<Rightarrow> 'a \<Rightarrow> int option) \<Rightarrow> 'a \<Rightarrow> 'a list \<Rightarrow> 'a list" where
  "insertSorted cmp x [] = [x]"
| "insertSorted cmp x (y # ys) =
     (if sortCompare cmp x y \<le> 0 then x # y # ys else y # insertSorted cmp x ys)"

fun stableSort :: "('a \<Rightarrow> 'a \<Rightarrow> int option) \<Rightarrow> 'a list \<Rightarrow> 'a list" where
  \<comment> \<open>a stable sort by a comparator. For a comparator that is no consistent order (one that
      answers \<^verbatim>\<open>NaN\<close>) the language leaves the resulting order to the implementation.\<close>
  "stableSort cmp [] = []"
| "stableSort cmp (x # xs) = insertSorted cmp x (stableSort cmp xs)"

definition arraySort :: "(Note \<Rightarrow> Note \<Rightarrow> int option) \<Rightarrow> ref \<Rightarrow> heap \<Rightarrow> ref \<times> heap" where
  \<comment> \<open>\<^verbatim>\<open>array.sort(cmp)\<close>: sorts the array itself and returns it\<close>
  "arraySort cmp r h = (r, h\<lparr>cells := (cells h)(r := stableSort cmp (cells h r))\<rparr>)"

subsection \<open>Sorting\<close>

definition timeDiff :: "int option \<Rightarrow> int option \<Rightarrow> int option" where
  \<comment> \<open>subtraction of times: \<^verbatim>\<open>NaN\<close> if either is\<close>
  "timeDiff a b = (case (a, b) of (Some x, Some y) \<Rightarrow> Some (x - y) | _ \<Rightarrow> None)"

definition sortNotes :: "runtime \<Rightarrow> ref \<Rightarrow> SortOption \<Rightarrow> heap \<Rightarrow> ref \<times> heap" where
  \<comment> \<open>the \<^verbatim>\<open>default\<close> branch of the \<^verbatim>\<open>switch\<close>, which returns the copy unsorted, is reached by no
      value of \<^verbatim>\<open>SortOption\<close>\<close>
  "sortNotes rt notesToSort opt h =
     (case arrayCopy notesToSort h of
        (sorted', h') \<Rightarrow>
          (case opt of
             Recent \<Rightarrow>
               arraySort (\<lambda>a b. timeDiff (parseDate rt (updated_at b)) (parseDate rt (updated_at a)))
                 sorted' h'
           | Alphabetical \<Rightarrow>
               arraySort (\<lambda>a b. Some (localeCompare rt (title a) (title b))) sorted' h'
           | MostEdited \<Rightarrow>
               arraySort (\<lambda>a b. timeDiff (parseDate rt (updated_at b)) (parseDate rt (updated_at a)))
                 sorted' h'
           | Oldest \<Rightarrow>
               arraySort (\<lambda>a b. timeDiff (parseDate rt (created_at a)) (parseDate rt (created_at b)))
                 sorted' h'))"

subsection \<open>The date filter\<close>

definition notBefore :: "int option \<Rightarrow> int \<Rightarrow> bool" where
  \<comment> \<open>\<^verbatim>\<open>noteDate >= date\<close> on the times of two dates: false for an \<^verbatim>\<open>Invalid Date\<close>\<close>
  "notBefore noteDate t = (case noteDate of None \<Rightarrow> False | Some v \<Rightarrow> t \<le> v)"

definition keepsDate :: "runtime \<Rightarrow> int \<Rightarrow> DateFilter \<Rightarrow> Note \<Rightarrow> bool" where
  \<comment> \<open>the callback of the filter; \<open>today\<close> is the time of local midnight. The last case is the
      \<^verbatim>\<open>default\<close> branch of the \<^verbatim>\<open>switch\<close>.\<close>
  "keepsDate rt today df n =
     (let noteDate = parseDate rt (created_at n)
      in case df of
           Today \<Rightarrow> notBefore noteDate today
         | ThisWeek \<Rightarrow> (let weekAgo = today - 7 * 24 * 60 * 60 * 1000 in notBefore noteDate weekAgo)
         | ThisMonth \<Rightarrow> (let monthAgo = today - 30 * 24 * 60 * 60 * 1000 in notBefore noteDate monthAgo)
         | AllDates \<Rightarrow> True)"

definition filterByDate :: "runtime \<Rightarrow> int \<Rightarrow> ref \<Rightarrow> DateFilter \<Rightarrow> heap \<Rightarrow> ref \<times> heap" where
  \<comment> \<open>\<open>now\<close> is the time of \<^verbatim>\<open>new Date()\<close>, the present: the limits of the range of \<^verbatim>\<open>Date\<close>
      (8.64e15 milliseconds either side of the epoch) are far away and are not modelled\<close>
  "filterByDate rt now notesToFilter df h =
     (if df = AllDates then (notesToFilter, h)
      else (let today = startOfDay rt now
            in arrayFilter (keepsDate rt today df) notesToFilter h))"

subsection \<open>The whole pipeline\<close>

definition includesText :: "string \<Rightarrow> string \<Rightarrow> bool" where
  \<comment> \<open>\<^verbatim>\<open>text.includes(part)\<close>\<close>
  "includesText text part = sublist part text"

definition matchesSearch :: "runtime \<Rightarrow> string \<Rightarrow> Note \<Rightarrow> bool" where
  "matchesSearch rt searchQuery n =
     (includesText (toLowerCase rt (title n)) (toLowerCase rt searchQuery) \<or>
      (body n \<noteq> [] \<and> includesText (toLowerCase rt (body n)) (toLowerCase rt searchQuery)))"

definition hasSelectedTag :: "string list \<Rightarrow> Note \<Rightarrow> bool" where
  "hasSelectedTag selected n =
     (case tags n of None \<Rightarrow> False | Some ts \<Rightarrow> list_ex (\<lambda>tag. tag \<in> set ts) selected)"

definition hasTags :: "Note \<Rightarrow> bool" where
  "hasTags n = (case tags n of None \<Rightarrow> False | Some ts \<Rightarrow> length ts > 0)"

definition isLong :: "Note \<Rightarrow> bool" where
  "isLong n = (body n \<noteq> [] \<and> length (body n) \<ge> 100)"

definition applyFiltersAndSort :: "runtime \<Rightarrow> int \<Rightarrow> ref \<Rightarrow> string \<Rightarrow> FilterOptions \<Rightarrow> heap
    \<Rightarrow> ref \<times> heap" where
  \<comment> \<open>\<open>notes\<close>, \<open>searchQuery\<close> and \<open>filters\<close> are the state of the screen that the callback
      reads; the array returned is the one it hands to \<^verbatim>\<open>setFilteredNotes\<close>\<close>
  "applyFiltersAndSort rt now notes searchQuery filters h =
     (case (if trim searchQuery \<noteq> [] then arrayFilter (matchesSearch rt searchQuery) notes h
            else (notes, h)) of
        (filtered1, h1) \<Rightarrow>
     (case filterByDate rt now filtered1 (dateFilter filters) h1 of
        (filtered2, h2) \<Rightarrow>
     (case (if length (selectedTags filters) > 0
            then arrayFilter (hasSelectedTag (selectedTags filters)) filtered2 h2
            else (filtered2, h2)) of
        (filtered3, h3) \<Rightarrow>
     (case (if withTagsOnly filters then arrayFilter hasTags filtered3 h3 else (filtered3, h3)) of
        (filtered4, h4) \<Rightarrow>
     (case (if longNotesOnly filters then arrayFilter isLong filtered4 h4 else (filtered4, h4)) of
        (filtered5, h5) \<Rightarrow> sortNotes rt filtered5 (sortBy filters) h5)))))"

definition elements :: "ref \<times> heap \<Rightarrow> Note list" where
  \<comment> \<open>the elements of the array that a stage returns\<close>
  "elements res = cells (snd res) (fst res)"

section \<open>The pipeline on lists\<close>

text \<open>
  What the claims about the pipeline speak of: the notes an array holds, with no store. The
  properties below relate the functions above, which work on arrays in the store, to these.
\<close>

definition createdSince :: "runtime \<Rightarrow> int \<Rightarrow> Note \<Rightarrow> bool" where
  \<comment> \<open>the note's \<^verbatim>\<open>created_at\<close> is a valid timestamp, at or after time \<open>t\<close>\<close>
  "createdSince rt t n = (case parseDate rt (created_at n) of None \<Rightarrow> False | Some v \<Rightarrow> t \<le> v)"

definition passesOtherFilters :: "runtime \<Rightarrow> string \<Rightarrow> FilterOptions \<Rightarrow> Note \<Rightarrow> bool" where
  \<comment> \<open>the text filter, the tag filter, the tagged-only filter and the length filter\<close>
  "passesOtherFilters rt searchQuery filters n =
     ((trim searchQuery \<noteq> [] \<longrightarrow> matchesSearch rt searchQuery n) \<and>
      (selectedTags filters \<noteq> [] \<longrightarrow> hasSelectedTag (selectedTags filters) n) \<and>
      (withTagsOnly filters \<longrightarrow> hasTags n) \<and>
      (longNotesOnly filters \<longrightarrow> isLong n))"

definition passesDateFilter :: "runtime \<Rightarrow> int \<Rightarrow> DateFilter \<Rightarrow> Note \<Rightarrow> bool" where
  "passesDateFilter rt now df n = (df \<noteq> AllDates \<longrightarrow> keepsDate rt (startOfDay rt now) df n)"

definition comparator :: "runtime \<Rightarrow> SortOption \<Rightarrow> Note \<Rightarrow> Note \<Rightarrow> int option" where
  "comparator rt opt a b =
     (case opt of
        Recent \<Rightarrow> timeDiff (parseDate rt (updated_at b)) (parseDate rt (updated_at a))
      | Alphabetical \<Rightarrow> Some (localeCompare rt (title a) (title b))
      | MostEdited \<Rightarrow> timeDiff (parseDate rt (updated_at b)) (parseDate rt (updated_at a))
      | Oldest \<Rightarrow> timeDiff (parseDate rt (created_at a)) (parseDate rt (created_at b)))"

definition displayed :: "runtime \<Rightarrow> int \<Rightarrow> string \<Rightarrow> FilterOptions \<Rightarrow> Note list \<Rightarrow> Note list" where
  "displayed rt now searchQuery filters ns =
     stableSort (comparator rt (sortBy filters))
       (filter (\<lambda>n. passesOtherFilters rt searchQuery filters n \<and>
                     passesDateFilter rt now (dateFilter filters) n) ns)"

definition updatedLatestFirst :: "runtime \<Rightarrow> Note list \<Rightarrow> bool" where
  \<comment> \<open>every \<^verbatim>\<open>updated_at\<close> is a valid timestamp, and they descend\<close>
  "updatedLatestFirst rt ns =
     (list_all (\<lambda>n. parseDate rt (updated_at n) \<noteq> None) ns \<and>
      sorted_wrt (\<lambda>a b. case (parseDate rt (updated_at a), parseDate rt (updated_at b)) of
                          (Some ta, Some tb) \<Rightarrow> tb \<le> ta
                        | _ \<Rightarrow> False) ns)"

definition reaches :: "heap \<Rightarrow> ref \<Rightarrow> Note list \<Rightarrow> ref \<times> heap \<Rightarrow> bool" where
  \<comment> \<open>a stage's result, run from the store \<open>h\<close> on the array \<open>notes\<close>: it holds \<open>xs\<close>, every
      array of \<open>h\<close> is as it was, and the array returned is \<open>notes\<close> itself in an unchanged
      store or an array allocated since\<close>
  "reaches h notes xs res =
     (cells (snd res) (fst res) = xs \<and>
      fresh h \<le> fresh (snd res) \<and>
      (\<forall>r<fresh h. cells (snd res) r = cells h r) \<and>
      ((fst res = notes \<and> snd res = h) \<or> (fresh h \<le> fst res \<and> fst res < fresh (snd res))))"

section \<open>Concrete inputs\<close>

text \<open>
  A runtime in the time zone UTC that reads the timestamps of the table below, compares texts
  by their code units and lower-cases the letters A to Z; a few notes; and the moment
  2024-01-10T10:00:00Z at which the examples run.
\<close>

definition utcTimes :: "(string \<times> int) list" where
  "utcTimes =
     [(''2024-01-03T05:00:00.000Z'', 1704258000000),
      (''2024-01-09T12:00:00.000Z'', 1704801600000),
      (''2024-01-10T08:00:00.000Z'', 1704873600000),
      (''2024-01-10T09:30:00.000Z'', 1704879000000)]"

fun compareText :: "string \<Rightarrow> string \<Rightarrow> int" where
  "compareText [] [] = 0"
| "compareText [] (y # ys) = -1"
| "compareText (x # xs) [] = 1"
| "compareText (x # xs) (y # ys) =
     (if (of_char x :: nat) < of_char y then -1
      else if (of_char y :: nat) < of_char x then 1
      else compareText xs ys)"

definition asciiLower :: "char \<Rightarrow> char" where
  "asciiLower c =
     (let k = (of_char c :: nat) in if 65 \<le> k \<and> k \<le> 90 then char_of (k + 32) else c)"

definition utcRuntime :: runtime where
  "utcRuntime =
     \<lparr>parseDate = map_of utcTimes,
      startOfDay = (\<lambda>t. t - t mod 86400000),
      localeCompare = compareText,
      toLowerCase = map asciiLower\<rparr>"

definition instantUtc :: "string \<Rightarrow> int" where
  "instantUtc t = (case map_of utcTimes t of None \<Rightarrow> 0 | Some v \<Rightarrow> v)"

definition nowUtc :: int where
  "nowUtc = 1704880800000"

definition noteZeta :: Note where
  "noteZeta = \<lparr>note_id = ''n1'', title = ''Zeta'', body = ''old'', tags = None,
                created_at = ''2024-01-03T05:00:00.000Z'',
                updated_at = ''2024-01-03T05:00:00.000Z'', deleted_at = None\<rparr>"

definition noteAlpha :: Note where
  "noteAlpha = \<lparr>note_id = ''n2'', title = ''Alpha'', body = ''new'', tags = Some [''a''],
                 created_at = ''2024-01-10T08:00:00.000Z'',
                 updated_at = ''2024-01-10T08:00:00.000Z'', deleted_at = None\<rparr>"

definition noteBroken :: Note where
  "noteBroken = \<lparr>note_id = ''n3'', title = ''Mid'', body = [], tags = Some [],
                  created_at = ''yesterday'',
                  updated_at = ''2024-01-09T12:00:00.000Z'', deleted_at = None\<rparr>"

definition homeHeap :: heap where
  \<comment> \<open>the array of the screen's notes at reference 0\<close>
  "homeHeap = \<lparr>cells = (\<lambda>r. [])(0 := [noteZeta, noteAlpha, noteBroken]), fresh = 1\<rparr>"

definition noFilters :: FilterOptions where
  \<comment> \<open>the initial criteria of the screen\<close>
  "noFilters = \<lparr>sortBy = Recent, dateFilter = AllDates, selectedTags = [],
                 withTagsOnly = False, longNotesOnly = False\<rparr>"

definition noteTrashed :: Note where
  "noteTrashed = \<lparr>note_id = ''n4'', title = ''Gone'', body = [], tags = None,
                   created_at = ''2024-01-03T05:00:00.000Z'',
                   updated_at = ''2024-01-03T05:00:00.000Z'',
                   deleted_at = Some ''2024-01-09T12:00:00.000Z''\<rparr>"

definition noteBinned :: Note where
  "noteBinned = \<lparr>note_id = ''n5'', title = ''Binned'', body = [], tags = None,
                  created_at = ''2024-01-03T05:00:00.000Z'',
                  updated_at = ''2024-01-03T05:00:00.000Z'',
                  deleted_at = Some ''2024-01-10T08:00:00.000Z''\<rparr>"

definition notesTable :: service where
  "notesTable = \<lparr>rows = [noteZeta, noteAlpha, noteTrashed, noteBinned], failing = None\<rparr>"

definition deletionTime :: string where
  "deletionTime = ''2024-01-10T09:30:00.000Z''"

definition contentPatch :: NotePatch where
  \<comment> \<open>an update that changes title, body and tags\<close>
  "contentPatch = \<lparr>patch_title = Some '' Zeta 2 '', patch_body = Some ''edited'',
                    patch_tags = Some (Some [''x''])\<rparr>"

definition noteZetaEdited :: Note where
  "noteZetaEdited = noteZeta\<lparr>title := ''Zeta 2'', body := ''edited'', tags := Some [''x'']\<rparr>"

definition otherHeap :: heap where
  \<comment> \<open>another store, holding the same notes at reference 3\<close>
  "otherHeap = \<lparr>cells = (\<lambda>r. [])(0 := [noteAlpha], 3 := [noteZeta, noteAlpha, noteBroken]),
                 fresh = 5\<rparr>"

definition weekFilter :: FilterOptions where
  \<comment> \<open>the initial criteria with the date filter set to this week\<close>
  "weekFilter = noFilters\<lparr>dateFilter := ThisWeek\<rparr>"

definition scenarioNotes :: "Note list" where
  \<comment> \<open>the scenario of the specification for the tag index\<close>
  "scenarioNotes = [tagged (Some [''a'', ''a'', ''b'']), tagged (Some [''b''])]"

definition distinctNotes :: "Note list" where
  "distinctNotes = [tagged (Some [''a'', ''b'']), tagged (Some [''b''])]"

section \<open>Properties of the tag index\<close>

lemma foldl_countTag:
  "m tag = None \<or> (\<exists>c. m tag = Some (Count c)) \<Longrightarrow>
   foldl countTag m ts tag =
     (if count_list ts tag = 0 then m tag
      else Some (Count ((case m tag of Some (Count c) \<Rightarrow> c | _ \<Rightarrow> 0) + count_list ts tag)))"
  by (induction ts arbitrary: m) (auto simp: countTag_def orZero_def plusOne_def)

lemma countNote_tag:
  "m tag = None \<or> (\<exists>c. m tag = Some (Count c)) \<Longrightarrow>
   countNote m n tag =
     (let k = (case tags n of None \<Rightarrow> 0 | Some ts \<Rightarrow> count_list ts tag) in
      if k = 0 then m tag
      else Some (Count ((case m tag of Some (Count c) \<Rightarrow> c | _ \<Rightarrow> 0) + k)))"
  by (cases "tags n") (auto simp: countNote_def foldl_countTag Let_def)

lemma foldl_countNote:
  "m tag = None \<or> (\<exists>c. m tag = Some (Count c)) \<Longrightarrow>
   foldl countNote m ns tag =
     (if occurrences tag ns = 0 then m tag
      else Some (Count ((case m tag of Some (Count c) \<Rightarrow> c | _ \<Rightarrow> 0) + occurrences tag ns)))"
proof (induction ns arbitrary: m)
  case Nil
  then show ?case by (simp add: occurrences_def)
next
  case (Cons n ns)
  let ?k = "case tags n of None \<Rightarrow> 0 | Some ts \<Rightarrow> count_list ts tag"
  have step: "countNote m n tag =
     (if ?k = 0 then m tag else Some (Count ((case m tag of Some (Count c) \<Rightarrow> c | _ \<Rightarrow> 0) + ?k)))"
    using countNote_tag [of m tag n] Cons.prems by (simp add: Let_def)
  then have ok: "countNote m n tag = None \<or> (\<exists>c. countNote m n tag = Some (Count c))"
    using Cons.prems by auto
  have occ: "occurrences tag (n # ns) = ?k + occurrences tag ns"
    by (simp add: occurrences_def)
  show ?case
    using Cons.IH [of "countNote m n"] ok step Cons.prems occ
    by (auto split: option.splits usage.splits)
qed

lemma count_list_distinct: "distinct ts \<Longrightarrow> count_list ts x = (if x \<in> set ts then 1 else 0)"
  by (induction ts) auto

lemma occurrences_distinct:
  "\<forall>n\<in>set ns. distinctTags n \<Longrightarrow> occurrences tag ns = length (filter (carries tag) ns)"
  by (induction ns)
     (auto simp: occurrences_def distinctTags_def carries_def count_list_distinct
           split: option.splits)

lemmas tagUsage_defs =
  calculateTagUsage_def countNote_def countTag_def emptyObject_def objectPrototypeKeys_def
  orZero_def plusOne_def tagged_def scenarioNotes_def distinctNotes_def

text \<open>
  A tag that is the name of a member of \<^verbatim>\<open>Object.prototype\<close> never gets a count: the empty
  accumulator already reads as a non-number there.
\<close>

lemma calculateTagUsage_inherited_name:
  "calculateTagUsage [tagged (Some [''constructor''])] ''constructor'' = Some NotACount \<and>
   calculateTagUsage [] ''constructor'' = Some NotACount"
  by (simp add: tagUsage_defs)

text \<open>
  C1, as the specification states it, fails: a tag that a note carries twice is counted twice.
  On the scenario \<^verbatim>\<open>[{tags:["a","a","b"]}, {tags:["b"]}]\<close> the function yields 2 for \<^verbatim>\<open>a\<close>,
  not 1 (and 2 for \<^verbatim>\<open>b\<close>).
\<close>

theorem calculateTagUsage_counts_duplicates:
  "calculateTagUsage scenarioNotes ''a'' = Some (Count 2) \<and>
   calculateTagUsage scenarioNotes ''a'' \<noteq> Some (Count 1) \<and>
   calculateTagUsage scenarioNotes ''b'' = Some (Count 2)"
  by (simp add: tagUsage_defs)

text \<open>
  C1, amended: for every note collection and every tag that is not the name of a member of
  \<^verbatim>\<open>Object.prototype\<close>, \<^verbatim>\<open>calculateTagUsage\<close> maps the tag to the number of its occurrences
  in the tag lists of all notes (a tag repeated inside one note is counted once per
  occurrence), and has no entry for a tag that occurs nowhere. Where no note repeats a tag,
  this is the number of notes carrying the tag. A note whose \<^verbatim>\<open>tags\<close> is \<^verbatim>\<open>null\<close> contributes to no
  count: the result is the same with or without it.
\<close>

theorem calculateTagUsage_counts_occurrences:
  assumes "tag \<notin> set objectPrototypeKeys"
  shows "calculateTagUsage ns tag =
           (if occurrences tag ns = 0 then None else Some (Count (occurrences tag ns))) \<and>
         ((\<forall>n\<in>set ns. distinctTags n) \<longrightarrow>
            occurrences tag ns = length (filter (carries tag) ns)) \<and>
         (tags n = None \<longrightarrow> calculateTagUsage (ns @ n # ms) = calculateTagUsage (ns @ ms))"
proof -
  have "emptyObject tag = None"
    using assms by (simp add: emptyObject_def)
  then have "calculateTagUsage ns tag =
           (if occurrences tag ns = 0 then None else Some (Count (occurrences tag ns)))"
    unfolding calculateTagUsage_def using foldl_countNote [of emptyObject tag ns] by simp
  moreover have "(\<forall>n\<in>set ns. distinctTags n) \<longrightarrow>
      occurrences tag ns = length (filter (carries tag) ns)"
    by (simp add: occurrences_distinct)
  moreover have "tags n = None \<longrightarrow>
      calculateTagUsage (ns @ n # ms) = calculateTagUsage (ns @ ms)"
    by (simp add: calculateTagUsage_def countNote_def)
  ultimately show ?thesis by blast
qed

theorem calculateTagUsage_counts_occurrences_witness:
  "''b'' \<notin> set objectPrototypeKeys \<and>
   list_all distinctTags distinctNotes \<and>
   tags (tagged None) = None \<and>
   calculateTagUsage distinctNotes ''b'' = Some (Count 2) \<and>
   length (filter (carries ''b'') distinctNotes) = 2 \<and>
   calculateTagUsage (distinctNotes @ [tagged None]) = calculateTagUsage distinctNotes"
proof -
  have key: "''b'' \<notin> set objectPrototypeKeys"
    by (simp add: objectPrototypeKeys_def)
  have dist: "\<forall>n\<in>set distinctNotes. distinctTags n"
    by (simp add: distinctNotes_def distinctTags_def tagged_def)
  have none: "tags (tagged None) = None"
    by (simp add: tagged_def)
  have len: "length (filter (carries ''b'') distinctNotes) = 2"
    by (simp add: distinctNotes_def carries_def tagged_def)
  show ?thesis
    using calculateTagUsage_counts_occurrences [OF key, of distinctNotes "tagged None" "[]"]
      key dist none len
    by (simp add: list_all_iff split: if_splits)
qed

section \<open>Properties of the note repository\<close>

lemmas fixture_defs =
  notesTable_def noteZeta_def noteAlpha_def noteTrashed_def noteBinned_def deletionTime_def
  contentPatch_def noteZetaEdited_def

lemmas repository_defs =
  listNotes_def getNote_def updateNote_def deleteNote_def restoreNote_def listDeletedNotes_def
  select_def updateWhere_def single_def noSingleRow_def applyPatch_def parseFilters.simps
  reads.simps written_def notParsed_def orElse_def NotFoundError_def active_def uniqueIds_def

lemma parseFilters_id_active [simp]:
  "parseFilters [Eq_id i, Is_deleted_at Null] = Inr (\<lambda>n. note_id n = i \<and> active n)"
  by (simp add: written_def active_def)

lemma parseFilters_active [simp]: "parseFilters [Is_deleted_at Null] = Inr active"
  by (simp add: written_def active_def fun_eq_iff)

lemma parseFilters_not_null [simp]:
  "parseFilters [Is_deleted_at (Text ''not.null'')] = Inl (notParsed ''not.null'')"
  "parseFilters [Eq_id i, Is_deleted_at (Text ''not.null'')] = Inl (notParsed ''not.null'')"
  by (simp_all add: written_def)

declare parseFilters.simps [simp del] reads.simps [simp del]

lemma map_unchanged: "(\<And>x. x \<in> set xs \<Longrightarrow> f x = x) \<Longrightarrow> map f xs = xs"
  by (induction xs) auto

subsection \<open>Soft deletion\<close>

lemma deleteNote_reachable:
  "failing svc = None \<Longrightarrow> i \<noteq> [] \<Longrightarrow>
   deleteNote i nowIso svc =
     (Inr True, svc\<lparr>rows := map (\<lambda>n. if note_id n = i \<and> active n
                                      then n\<lparr>deleted_at := Some nowIso\<rparr> else n) (rows svc)\<rparr>)"
  by (simp add: deleteNote_def updateWhere_def applyPatch_def)

lemma deleteNote_noop:
  assumes "i \<noteq> []" "failing svc = None" "\<forall>n\<in>set (rows svc). note_id n = i \<longrightarrow> \<not> active n"
  shows "deleteNote i nowIso svc = (Inr True, svc)"
proof -
  have "map (\<lambda>n. if note_id n = i \<and> active n
                  then n\<lparr>deleted_at := Some nowIso\<rparr> else n) (rows svc) = rows svc"
    using assms(3) by (intro map_unchanged) auto
  then show ?thesis
    using assms(1,2) by (simp add: deleteNote_reachable)
qed

lemma marked_inactive:
  assumes "note_id (if note_id n = i \<and> active n then n\<lparr>deleted_at := Some t\<rparr> else n) = i"
  shows "\<not> active (if note_id n = i \<and> active n then n\<lparr>deleted_at := Some t\<rparr> else n)"
proof (cases "active n")
  case True
  with assms have "note_id n = i" by (simp split: if_splits)
  with True show ?thesis by (simp add: active_def)
next
  case False
  then show ?thesis by simp
qed

lemma deleteNote_again:
  assumes "i \<noteq> []" "failing svc = None"
  shows "deleteNote i later (snd (deleteNote i nowIso svc)) =
           (Inr True, snd (deleteNote i nowIso svc))"
proof -
  define svc1 where "svc1 = snd (deleteNote i nowIso svc)"
  have first: "svc1 = svc\<lparr>rows := map (\<lambda>n. if note_id n = i \<and> active n
                                      then n\<lparr>deleted_at := Some nowIso\<rparr> else n) (rows svc)\<rparr>"
    unfolding svc1_def deleteNote_reachable [OF assms(2,1)] by simp
  have up: "failing svc1 = None"
    using assms(2) by (simp add: first)
  have gone: "\<forall>n\<in>set (rows svc1). note_id n = i \<longrightarrow> \<not> active n"
  proof (intro ballI impI)
    fix m
    assume "m \<in> set (rows svc1)" and i: "note_id m = i"
    then have "m \<in> (\<lambda>n. if note_id n = i \<and> active n
                          then n\<lparr>deleted_at := Some nowIso\<rparr> else n) ` set (rows svc)"
      by (simp add: first)
    then obtain n where
      "m = (if note_id n = i \<and> active n then n\<lparr>deleted_at := Some nowIso\<rparr> else n)"
      by (rule imageE)
    with i show "\<not> active m"
      using marked_inactive [of n i nowIso] by simp
  qed
  have "deleteNote i later svc1 = (Inr True, svc1)"
    using assms(1) up gone by (rule deleteNote_noop)
  then show ?thesis
    by (simp add: svc1_def)
qed

text \<open>
  C2, as the specification states it, fails: soft-deleting a note that is already soft-deleted,
  or an id that no note has, does not fail with the not-found error. It succeeds and leaves
  the table as it was.
\<close>

theorem deleteNote_twice_succeeds:
  "\<not> active noteTrashed \<and>
   deleteNote ''n4'' deletionTime notesTable = (Inr True, notesTable) \<and>
   fst (deleteNote ''n4'' deletionTime notesTable) \<noteq> Inl NotFoundError \<and>
   deleteNote ''n0'' deletionTime notesTable = (Inr True, notesTable)"
  by (simp add: repository_defs fixture_defs)

text \<open>
  C2, amended: \<^verbatim>\<open>deleteNote(id)\<close> fails for an empty id, and with the service's error (the
  table unchanged) while the service fails. Otherwise it succeeds, and sets \<^verbatim>\<open>deleted_at\<close> to
  the current time on the note with that id only if that note is active, leaving every other
  record and field as it was. For an id whose note is not active (already soft-deleted or
  nonexistent) it therefore succeeds as a no-op, and the operation is idempotent: deleting
  the same id once more succeeds and changes nothing.
\<close>

theorem deleteNote_marks_active_only:
  "deleteNote i nowIso svc =
     (if i = [] then (Inl (Error ''Note ID is required''), svc)
      else case failing svc of
             Some e \<Rightarrow> (Inl (Error (orElse (err_message e) ''Failed to delete note'')), svc)
           | None \<Rightarrow>
               (Inr True,
                svc\<lparr>rows := map (\<lambda>n. if note_id n = i \<and> active n
                                      then n\<lparr>deleted_at := Some nowIso\<rparr> else n) (rows svc)\<rparr>)) \<and>
   (i \<noteq> [] \<and> failing svc = None \<and> (\<forall>n\<in>set (rows svc). note_id n = i \<longrightarrow> \<not> active n) \<longrightarrow>
      deleteNote i nowIso svc = (Inr True, svc)) \<and>
   (i \<noteq> [] \<and> failing svc = None \<longrightarrow>
      deleteNote i later (snd (deleteNote i nowIso svc)) =
        (Inr True, snd (deleteNote i nowIso svc)))"
proof (intro conjI impI)
  show "deleteNote i nowIso svc =
     (if i = [] then (Inl (Error ''Note ID is required''), svc)
      else case failing svc of
             Some e \<Rightarrow> (Inl (Error (orElse (err_message e) ''Failed to delete note'')), svc)
           | None \<Rightarrow>
               (Inr True,
                svc\<lparr>rows := map (\<lambda>n. if note_id n = i \<and> active n
                                      then n\<lparr>deleted_at := Some nowIso\<rparr> else n) (rows svc)\<rparr>))"
    by (simp add: deleteNote_def updateWhere_def applyPatch_def split: option.splits)
next
  assume "i \<noteq> [] \<and> failing svc = None \<and> (\<forall>n\<in>set (rows svc). note_id n = i \<longrightarrow> \<not> active n)"
  then show "deleteNote i nowIso svc = (Inr True, svc)"
    by (intro deleteNote_noop) simp_all
next
  assume "i \<noteq> [] \<and> failing svc = None"
  then show "deleteNote i later (snd (deleteNote i nowIso svc)) =
      (Inr True, snd (deleteNote i nowIso svc))"
    by (intro deleteNote_again) simp_all
qed

theorem deleteNote_marks_active_only_witness:
  "''n1'' \<noteq> [] \<and> ''n5'' \<noteq> [] \<and> failing notesTable = None \<and>
   list_all (\<lambda>n. note_id n \<noteq> ''n5'' \<or> \<not> active n) (rows notesTable) \<and>
   deleteNote ''n5'' deletionTime notesTable = (Inr True, notesTable) \<and>
   deleteNote ''n1'' deletionTime notesTable =
     (Inr True,
      notesTable\<lparr>rows := [noteZeta\<lparr>deleted_at := Some deletionTime\<rparr>,
                           noteAlpha, noteTrashed, noteBinned]\<rparr>) \<and>
   deleteNote ''n1'' deletionTime (snd (deleteNote ''n1'' deletionTime notesTable)) =
     (Inr True,
      notesTable\<lparr>rows := [noteZeta\<lparr>deleted_at := Some deletionTime\<rparr>,
                           noteAlpha, noteTrashed, noteBinned]\<rparr>)"
proof -
  have hyp: "''n5'' \<noteq> [] \<and> failing notesTable = None \<and>
      (\<forall>n\<in>set (rows notesTable). note_id n = ''n5'' \<longrightarrow> \<not> active n)"
    by (simp add: fixture_defs active_def)
  have noop: "deleteNote ''n5'' deletionTime notesTable = (Inr True, notesTable)"
    using deleteNote_marks_active_only [of "''n5''" deletionTime notesTable] hyp by blast
  have first: "deleteNote ''n1'' deletionTime notesTable =
     (Inr True,
      notesTable\<lparr>rows := [noteZeta\<lparr>deleted_at := Some deletionTime\<rparr>,
                           noteAlpha, noteTrashed, noteBinned]\<rparr>)"
    using deleteNote_marks_active_only [of "''n1''" deletionTime notesTable]
    by (simp add: fixture_defs active_def)
  have again: "deleteNote ''n1'' deletionTime (snd (deleteNote ''n1'' deletionTime notesTable)) =
     (Inr True, snd (deleteNote ''n1'' deletionTime notesTable))"
  proof -
    have "''n1'' \<noteq> [] \<and> failing notesTable = None"
      using hyp by simp
    then show ?thesis
      using deleteNote_marks_active_only [of "''n1''" deletionTime notesTable deletionTime]
      by blast
  qed
  show ?thesis using hyp noop first again by (simp add: list_all_iff)
qed

subsection \<open>Updates and the modification time\<close>

text \<open>
  A created note carries the time of its insertion as \<^verbatim>\<open>created_at\<close> and \<^verbatim>\<open>updated_at\<close>, and no
  function of the repository writes \<^verbatim>\<open>updated_at\<close> afterwards: neither soft deletion and
  restoring, nor an update.
\<close>

lemma createNote_sets_updated_at:
  "createNote newId nowIso input svc = (Inr n, svc') \<Longrightarrow>
   updated_at n = nowIso \<and> created_at n = nowIso \<and> deleted_at n = None"
  by (auto simp: createNote_def insert_row_def single_def Let_def
           split: if_splits option.splits sum.splits)

lemma deleteNote_keeps_every_updated_at:
  "deleteNote i nowIso svc = (r, svc') \<Longrightarrow> map updated_at (rows svc') = map updated_at (rows svc)"
  by (auto simp: deleteNote_def updateWhere_def applyPatch_def
           split: if_splits option.splits prod.splits sum.splits)

lemma restoreNote_keeps_every_updated_at:
  "restoreNote i svc = (r, svc') \<Longrightarrow> map updated_at (rows svc') = map updated_at (rows svc)"
  by (auto simp: restoreNote_def updateWhere_def applyPatch_def
           split: if_splits option.splits prod.splits sum.splits)

lemma updateNote_keeps_every_updated_at:
  "updateNote i patch svc = (r, svc') \<Longrightarrow> map updated_at (rows svc') = map updated_at (rows svc)"
  by (auto simp: updateNote_def updateWhere_def applyPatch_def Let_def
           split: if_splits option.splits prod.splits sum.splits)

text \<open>
  C3, the code against the claim: a successful update that changes title, body and tags should
  advance \<^verbatim>\<open>updated_at\<close>, and the screens rely on it (the sort options read "Recently updated
  notes first" and "Recently modified notes", the detail screen shows "Updated" once
  \<^verbatim>\<open>updated_at\<close> differs from \<^verbatim>\<open>created_at\<close>). But \<^verbatim>\<open>updateNote\<close> sends the title, body and tags
  of the patch and nothing else, so the record keeps the \<^verbatim>\<open>updated_at\<close> it had. Here the note
  \<^verbatim>\<open>n1\<close> gets a new title, body and tags, and the record that comes back still carries the
  \<^verbatim>\<open>updated_at\<close> of its creation.
\<close>

theorem updateNote_leaves_updated_at:
  "updateNote ''n1'' contentPatch notesTable =
     (Inr noteZetaEdited,
      notesTable\<lparr>rows := [noteZetaEdited, noteAlpha, noteTrashed, noteBinned]\<rparr>) \<and>
   title noteZetaEdited \<noteq> title noteZeta \<and>
   body noteZetaEdited \<noteq> body noteZeta \<and>
   tags noteZetaEdited \<noteq> tags noteZeta \<and>
   updated_at noteZetaEdited = updated_at noteZeta \<and>
   updated_at noteZeta = created_at noteZeta"
  by (simp add: repository_defs fixture_defs trim_def isSpace_def)

subsection \<open>Listing\<close>

lemma map_filter_all_Some:
  "\<forall>n\<in>set ns. col n \<noteq> None \<Longrightarrow> List.map_filter col ns = map (\<lambda>n. the (col n)) ns"
  by (induction ns) (auto simp: List.map_filter_simps)

lemma map_filter_Some: "List.map_filter (\<lambda>n. Some (f n)) ns = map f ns"
  by (induction ns) (simp_all add: List.map_filter_simps)

lemma latestFirst_sorted_keys:
  assumes "sorted (map (\<lambda>n. map_option (\<lambda>t. - instant t) (col n)) ns)"
    and "\<forall>n\<in>set ns. col n \<noteq> None"
  shows "latestFirst instant (List.map_filter col ns)"
proof -
  have "sorted_wrt (\<lambda>a b. map_option (\<lambda>t. - instant t) (col a)
                           \<le> map_option (\<lambda>t. - instant t) (col b)) ns"
    using assms(1) by (simp add: sorted_map)
  then have "sorted_wrt (\<lambda>a b. instant (the (col b)) \<le> instant (the (col a))) ns"
  proof (rule sorted_wrt_mono_rel [rotated])
    fix a b
    assume "a \<in> set ns" "b \<in> set ns"
      and le: "map_option (\<lambda>t. - instant t) (col a) \<le> map_option (\<lambda>t. - instant t) (col b)"
    then obtain ta tb where "col a = Some ta" "col b = Some tb"
      using assms(2) by blast
    with le show "instant (the (col b)) \<le> instant (the (col a))"
      by simp
  qed
  then show ?thesis
    by (simp add: latestFirst_def map_filter_all_Some [OF assms(2)] sorted_wrt_map)
qed

lemma orderDescending_latestFirst:
  "\<forall>n\<in>set ns. columnValue c n \<noteq> None \<Longrightarrow>
   latestFirst instant (List.map_filter (columnValue c) (orderDescending instant c ns))"
  unfolding orderDescending_def
  by (rule latestFirst_sorted_keys) (simp_all add: sorted_sort_key)

text \<open>
  While the service answers, \<^verbatim>\<open>listNotes\<close> returns exactly the active notes of the table (each
  as often as the table holds it, and no other), ordered by \<^verbatim>\<open>updated_at\<close> descending.
\<close>

lemma listNotes_exact_latest_first:
  assumes "failing svc = None"
  shows "\<exists>ns. listNotes instant svc = Inr ns \<and>
              mset ns = mset (filter active (rows svc)) \<and>
              latestFirst instant (map updated_at ns)"
proof -
  let ?ns = "orderDescending instant Updated_at (filter active (rows svc))"
  have l: "listNotes instant svc = Inr ?ns"
    using assms by (simp add: listNotes_def select_def)
  have "latestFirst instant (List.map_filter (columnValue Updated_at) ?ns)"
    by (rule orderDescending_latestFirst) simp
  moreover have "columnValue Updated_at = (\<lambda>n. Some (updated_at n))"
    by (simp add: fun_eq_iff)
  ultimately have l_order: "latestFirst instant (map updated_at ?ns)"
    by (simp add: map_filter_Some)
  have l_exact: "mset ?ns = mset (filter active (rows svc))"
    by (simp add: orderDescending_def)
  show ?thesis
    using l l_order l_exact by blast
qed

text \<open>
  The two functions that ask for the soft-deleted notes send \<^verbatim>\<open>deleted_at=is.not.null\<close>, which
  the service does not read: whatever the table holds, the request is refused, the function
  throws the service's message, and the table stays as it is.
\<close>

lemma listDeletedNotes_refused:
  "failing svc = None \<Longrightarrow>
   listDeletedNotes instant svc = Inl (Error (err_message (notParsed ''not.null'')))"
  by (simp add: listDeletedNotes_def select_def orElse_def notParsed_def)

lemma restoreNote_refused:
  "failing svc = None \<Longrightarrow> i \<noteq> [] \<Longrightarrow>
   restoreNote i svc = (Inl (Error (err_message (notParsed ''not.null''))), svc)"
  by (simp add: restoreNote_def updateWhere_def single_def orElse_def notParsed_def)

text \<open>
  C4, the code against the claim: \<^verbatim>\<open>listNotes\<close> does what the claim says (the lemma above), but
  \<^verbatim>\<open>listDeletedNotes\<close> should return exactly the soft-deleted notes, latest deletion first, and
  returns none: its filter is written \<^verbatim>\<open>.is('deleted_at', 'not.null')\<close>, not the service's filter
  for not null. Here the table holds two soft-deleted notes, and the call fails with the
  service's refusal.
\<close>

theorem listDeletedNotes_fails_on_its_filter:
  "failing notesTable = None \<and>
   filter (\<lambda>n. deleted_at n \<noteq> None) (rows notesTable) = [noteTrashed, noteBinned] \<and>
   listDeletedNotes instantUtc notesTable = Inl (Error ''failed to parse filter (is.not.null)'') \<and>
   listNotes instantUtc notesTable = Inr [noteAlpha, noteZeta]"
  by (simp add: repository_defs fixture_defs orderDescending_def instantUtc_def utcTimes_def)

subsection \<open>Reading one note\<close>

lemma filter_unique_id:
  "distinct (map note_id xs) \<Longrightarrow> n \<in> set xs \<Longrightarrow> P n \<Longrightarrow>
   filter (\<lambda>m. note_id m = note_id n \<and> P m) xs = [n]"
proof (induction xs)
  case Nil
  then show ?case by simp
next
  case (Cons x xs)
  show ?case
  proof (cases "x = n")
    case True
    with Cons.prems(1) have "\<forall>m\<in>set xs. note_id n \<noteq> note_id m"
      by (simp add: image_iff)
    then have "filter (\<lambda>m. note_id m = note_id n \<and> P m) xs = []"
      by (auto simp: filter_empty_conv)
    with True Cons.prems(3) show ?thesis by simp
  next
    case False
    with Cons.prems have "n \<in> set xs" and "note_id x \<noteq> note_id n" by auto
    with Cons show ?thesis by simp
  qed
qed

lemma getNote_reachable:
  "failing svc = None \<Longrightarrow>
   getNote i svc =
     (if i = [] then Inl (Error ''Note ID is required'')
      else case filter (\<lambda>n. note_id n = i \<and> active n) (rows svc) of
             [n] \<Rightarrow> Inr n
           | _ \<Rightarrow> Inl NotFoundError)"
  by (simp add: getNote_def select_def single_def noSingleRow_def NotFoundError_def
           split: list.splits)

lemma getNote_found:
  assumes "failing svc = None" "uniqueIds svc" "n \<in> set (rows svc)" "active n" "note_id n \<noteq> []"
  shows "getNote (note_id n) svc = Inr n"
  using assms filter_unique_id [of "rows svc" n active]
  by (simp add: getNote_reachable uniqueIds_def)

lemma getNote_not_found:
  assumes "failing svc = None" "i \<noteq> []" "\<forall>n\<in>set (rows svc). note_id n = i \<longrightarrow> \<not> active n"
  shows "getNote i svc = Inl NotFoundError"
proof -
  have "filter (\<lambda>n. note_id n = i \<and> active n) (rows svc) = []"
    using assms(3) by (auto simp: filter_empty_conv)
  then show ?thesis using assms(1,2) by (simp add: getNote_reachable)
qed

lemma get_after_delete:
  assumes ok: "failing svc = None"
    and n: "note_id n \<noteq> []"
  shows "getNote (note_id n) (snd (deleteNote (note_id n) nowIso svc)) = Inl NotFoundError"
proof -
  let ?i = "note_id n"
  let ?del = "\<lambda>m. if note_id m = ?i \<and> active m then m\<lparr>deleted_at := Some nowIso\<rparr> else m"
  let ?svc1 = "svc\<lparr>rows := map ?del (rows svc)\<rparr>"
  have d: "deleteNote ?i nowIso svc = (Inr True, ?svc1)"
    using ok n by (rule deleteNote_reachable)
  have f1: "failing ?svc1 = None" using ok by simp
  have "\<forall>m\<in>set (rows ?svc1). note_id m = ?i \<longrightarrow> \<not> active m"
    by (auto simp: active_def)
  with f1 n have "getNote ?i ?svc1 = Inl NotFoundError"
    by (rule getNote_not_found)
  with d show ?thesis by simp
qed

lemma getNote_no_validation:
  assumes "failing svc = None" "i \<noteq> []"
  shows "getNote i svc \<notin> Inl ` ValidationError"
  using assms
  by (auto simp: getNote_reachable NotFoundError_def ValidationError_def split: list.splits)

text \<open>
  C5, as the specification states it, fails: a malformed id that is not empty is not met with
  the validation error. It is looked up like any other id, and here, where no note has it,
  the function fails with the not-found error.
\<close>

theorem getNote_looks_up_malformed_id:
  "getNote ''not-a-uuid!'' notesTable = Inl NotFoundError \<and>
   getNote ''   '' notesTable = Inl NotFoundError \<and>
   NotFoundError \<notin> ValidationError"
  by (simp add: repository_defs fixture_defs ValidationError_def)

text \<open>
  C5, amended: while the service answers and ids are unique, \<^verbatim>\<open>getNote\<close> fails with the
  validation error on the empty id and on no other: every other text, however malformed, is
  looked up. It returns the active note with the id asked for, and it fails with the not-found
  error whenever no active note has that id, a soft-deleted one with that id included: after
  \<^verbatim>\<open>deleteNote\<close> of an active note \<^verbatim>\<open>getNote\<close> fails with the not-found error. What it does after
  \<^verbatim>\<open>restoreNote\<close> is left out here: restoring is part of the defect described with C4.
\<close>

theorem getNote_rejects_empty_id_only:
  assumes "failing svc = None" and "uniqueIds svc"
  shows "getNote [] svc = Inl (Error ''Note ID is required'') \<and>
         Error ''Note ID is required'' \<in> ValidationError \<and>
         (i \<noteq> [] \<longrightarrow> getNote i svc \<notin> Inl ` ValidationError) \<and>
         (i \<noteq> [] \<and> (\<forall>m\<in>set (rows svc). note_id m = i \<longrightarrow> \<not> active m) \<longrightarrow>
            getNote i svc = Inl NotFoundError) \<and>
         (n \<in> set (rows svc) \<and> active n \<and> note_id n \<noteq> [] \<longrightarrow>
            getNote (note_id n) svc = Inr n \<and>
            getNote (note_id n) (snd (deleteNote (note_id n) nowIso svc)) = Inl NotFoundError)"
proof -
  have empty: "getNote [] svc = Inl (Error ''Note ID is required'')"
    by (simp add: getNote_def)
  have validation: "Error ''Note ID is required'' \<in> ValidationError"
    by (simp add: ValidationError_def)
  have looked_up: "getNote i svc \<notin> Inl ` ValidationError" if "i \<noteq> []"
    using assms(1) that by (rule getNote_no_validation)
  have missing: "getNote i svc = Inl NotFoundError"
    if "i \<noteq> []" "\<forall>m\<in>set (rows svc). note_id m = i \<longrightarrow> \<not> active m"
    using assms(1) that by (rule getNote_not_found)
  have found: "getNote (note_id n) svc = Inr n \<and>
      getNote (note_id n) (snd (deleteNote (note_id n) nowIso svc)) = Inl NotFoundError"
    if n: "n \<in> set (rows svc)" "active n" "note_id n \<noteq> []"
  proof -
    have "getNote (note_id n) svc = Inr n"
      using assms n by (rule getNote_found)
    moreover have "getNote (note_id n) (snd (deleteNote (note_id n) nowIso svc)) = Inl NotFoundError"
      using assms(1) n(3) by (rule get_after_delete)
    ultimately show ?thesis by simp
  qed
  show ?thesis
    using empty validation looked_up missing found by blast
qed

theorem getNote_rejects_empty_id_only_witness:
  "failing notesTable = None \<and> uniqueIds notesTable \<and>
   noteZeta \<in> set (rows notesTable) \<and> active noteZeta \<and> note_id noteZeta = ''n1'' \<and>
   list_all (\<lambda>m. note_id m \<noteq> ''n4'' \<or> \<not> active m) (rows notesTable) \<and>
   getNote [] notesTable = Inl (Error ''Note ID is required'') \<and>
   getNote ''n4'' notesTable \<notin> Inl ` ValidationError \<and>
   getNote ''n4'' notesTable = Inl NotFoundError \<and>
   getNote ''n1'' notesTable = Inr noteZeta \<and>
   getNote ''n1'' (snd (deleteNote ''n1'' deletionTime notesTable)) = Inl NotFoundError"
proof -
  have up: "failing notesTable = None"
    by (simp add: notesTable_def)
  have ids: "uniqueIds notesTable"
    by (simp add: uniqueIds_def fixture_defs)
  have zeta: "noteZeta \<in> set (rows notesTable) \<and> active noteZeta \<and> note_id noteZeta = ''n1''"
    by (simp add: fixture_defs active_def)
  have gone: "''n4'' \<noteq> [] \<and> (\<forall>m\<in>set (rows notesTable). note_id m = ''n4'' \<longrightarrow> \<not> active m)"
    by (simp add: fixture_defs active_def)
  have other: "(Inl NotFoundError :: error + Note) \<notin> Inl ` ValidationError"
    by (auto simp: NotFoundError_def ValidationError_def)
  show ?thesis
    using getNote_rejects_empty_id_only [OF up ids, of "''n4''" noteZeta deletionTime]
      up ids zeta gone other
    by (simp add: list_all_iff)
qed

section \<open>Properties of the query pipeline\<close>

lemmas pipeline_defs =
  applyFiltersAndSort_def filterByDate_def sortNotes_def arrayFilter_def arrayCopy_def
  arraySort_def alloc_def elements_def keepsDate_def notBefore_def timeDiff_def sortCompare_def
  matchesSearch_def hasSelectedTag_def hasTags_def isLong_def trim_def isSpace_def

lemmas home_defs =
  homeHeap_def otherHeap_def noFilters_def weekFilter_def utcRuntime_def utcTimes_def nowUtc_def
  noteZeta_def noteAlpha_def noteBroken_def

subsection \<open>The stages, array by array\<close>

lemma reaches_start: "reaches h notes (cells h notes) (notes, h)"
  by (simp add: reaches_def)

lemma reaches_alloc:
  assumes "reaches h notes xs res"
  shows "reaches h notes ys (alloc ys (snd res))"
    and "fresh h \<le> fst (alloc ys (snd res))"
    and "fst (alloc ys (snd res)) < fresh (snd (alloc ys (snd res)))"
  using assms by (auto simp: reaches_def alloc_def)

lemma reaches_arrayFilter:
  assumes "reaches h notes xs res"
  shows "reaches h notes (filter p xs) (arrayFilter p (fst res) (snd res))"
proof -
  have "cells (snd res) (fst res) = xs" using assms by (simp add: reaches_def)
  then show ?thesis
    using reaches_alloc(1) [OF assms, of "filter p xs"] by (simp add: arrayFilter_def)
qed

lemma reaches_if_filter:
  assumes "reaches h notes xs res"
  shows "reaches h notes (filter (\<lambda>n. c \<longrightarrow> p n) xs)
           (if c then arrayFilter p (fst res) (snd res) else res)"
  using assms reaches_arrayFilter [OF assms, of p] by (cases c) simp_all

lemma reaches_first_filter:
  "reaches h notes (filter (\<lambda>n. c \<longrightarrow> p n) (cells h notes))
     (if c then arrayFilter p notes h else (notes, h))"
proof (cases c)
  case True
  then show ?thesis
    using reaches_arrayFilter [OF reaches_start, of h "notes" p] by simp
next
  case False
  then show ?thesis by (simp add: reaches_start)
qed

lemma reaches_filterByDate:
  assumes "reaches h notes xs res"
  shows "reaches h notes (filter (passesDateFilter rt now df) xs)
           (filterByDate rt now (fst res) df (snd res))"
proof (cases "df = AllDates")
  case True
  then show ?thesis using assms by (simp add: filterByDate_def passesDateFilter_def)
next
  case False
  then have "passesDateFilter rt now df = keepsDate rt (startOfDay rt now) df"
    by (simp add: passesDateFilter_def fun_eq_iff)
  with False show ?thesis
    using reaches_arrayFilter [OF assms, of "keepsDate rt (startOfDay rt now) df"]
    by (simp add: filterByDate_def)
qed

lemma sortNotes_alt:
  "sortNotes rt r opt h =
     arraySort (comparator rt opt) (fst (arrayCopy r h)) (snd (arrayCopy r h))"
proof -
  have "comparator rt opt =
     (case opt of
        Recent \<Rightarrow> (\<lambda>a b. timeDiff (parseDate rt (updated_at b)) (parseDate rt (updated_at a)))
      | Alphabetical \<Rightarrow> (\<lambda>a b. Some (localeCompare rt (title a) (title b)))
      | MostEdited \<Rightarrow> (\<lambda>a b. timeDiff (parseDate rt (updated_at b)) (parseDate rt (updated_at a)))
      | Oldest \<Rightarrow> (\<lambda>a b. timeDiff (parseDate rt (created_at a)) (parseDate rt (created_at b))))"
    by (cases opt) (simp_all add: comparator_def fun_eq_iff)
  then show ?thesis
    by (cases opt) (simp_all add: sortNotes_def split_beta)
qed

lemma reaches_sortNotes:
  assumes "reaches h notes xs res"
  shows "reaches h notes (stableSort (comparator rt opt) xs) (sortNotes rt (fst res) opt (snd res))"
    and "fresh h \<le> fst (sortNotes rt (fst res) opt (snd res))"
    and "fst (sortNotes rt (fst res) opt (snd res)) < fresh (snd (sortNotes rt (fst res) opt (snd res)))"
proof -
  have xs: "cells (snd res) (fst res) = xs" using assms by (simp add: reaches_def)
  let ?c = "arrayCopy (fst res) (snd res)"
  have c: "reaches h notes xs ?c" "fresh h \<le> fst ?c" "fst ?c < fresh (snd ?c)"
    using reaches_alloc [OF assms, of xs] xs by (simp_all add: arrayCopy_def)
  have s: "sortNotes rt (fst res) opt (snd res) = arraySort (comparator rt opt) (fst ?c) (snd ?c)"
    by (rule sortNotes_alt)
  show "reaches h notes (stableSort (comparator rt opt) xs) (sortNotes rt (fst res) opt (snd res))"
    unfolding s using c by (auto simp: reaches_def arraySort_def)
  show "fresh h \<le> fst (sortNotes rt (fst res) opt (snd res))"
    unfolding s using c by (simp add: arraySort_def)
  show "fst (sortNotes rt (fst res) opt (snd res)) < fresh (snd (sortNotes rt (fst res) opt (snd res)))"
    unfolding s using c by (simp add: arraySort_def)
qed

lemma applyFiltersAndSort_reaches:
  "reaches h notes (displayed rt now q f (cells h notes)) (applyFiltersAndSort rt now notes q f h)"
  "fresh h \<le> fst (applyFiltersAndSort rt now notes q f h)"
  "fst (applyFiltersAndSort rt now notes q f h) < fresh (snd (applyFiltersAndSort rt now notes q f h))"
proof -
  let ?xs = "cells h notes"
  define s1 where "s1 = (if trim q \<noteq> [] then arrayFilter (matchesSearch rt q) notes h else (notes, h))"
  define s2 where "s2 = filterByDate rt now (fst s1) (dateFilter f) (snd s1)"
  define s3 where "s3 = (if length (selectedTags f) > 0
      then arrayFilter (hasSelectedTag (selectedTags f)) (fst s2) (snd s2) else s2)"
  define s4 where "s4 = (if withTagsOnly f then arrayFilter hasTags (fst s3) (snd s3) else s3)"
  define s5 where "s5 = (if longNotesOnly f then arrayFilter isLong (fst s4) (snd s4) else s4)"
  define x1 where "x1 = filter (\<lambda>n. trim q \<noteq> [] \<longrightarrow> matchesSearch rt q n) ?xs"
  define x2 where "x2 = filter (passesDateFilter rt now (dateFilter f)) x1"
  define x3 where "x3 = filter (\<lambda>n. length (selectedTags f) > 0 \<longrightarrow> hasSelectedTag (selectedTags f) n) x2"
  define x4 where "x4 = filter (\<lambda>n. withTagsOnly f \<longrightarrow> hasTags n) x3"
  define x5 where "x5 = filter (\<lambda>n. longNotesOnly f \<longrightarrow> isLong n) x4"
  have run: "applyFiltersAndSort rt now notes q f h = sortNotes rt (fst s5) (sortBy f) (snd s5)"
    unfolding applyFiltersAndSort_def s1_def s2_def s3_def s4_def s5_def
    by (simp add: split_beta)
  have r1: "reaches h notes x1 s1"
    unfolding s1_def x1_def by (rule reaches_first_filter)
  have r2: "reaches h notes x2 s2"
    unfolding s2_def x2_def using r1 by (rule reaches_filterByDate)
  have r3: "reaches h notes x3 s3"
    unfolding s3_def x3_def using r2 by (rule reaches_if_filter)
  have r4: "reaches h notes x4 s4"
    unfolding s4_def x4_def using r3 by (rule reaches_if_filter)
  have r5: "reaches h notes x5 s5"
    unfolding s5_def x5_def using r4 by (rule reaches_if_filter)
  have x5: "x5 = filter (\<lambda>n. passesOtherFilters rt q f n \<and> passesDateFilter rt now (dateFilter f) n) ?xs"
    unfolding x5_def x4_def x3_def x2_def x1_def
    by (auto simp: passesOtherFilters_def intro!: filter_cong)
  show "reaches h notes (displayed rt now q f (cells h notes)) (applyFiltersAndSort rt now notes q f h)"
    unfolding run displayed_def x5 [symmetric] using r5 by (rule reaches_sortNotes(1))
  show "fresh h \<le> fst (applyFiltersAndSort rt now notes q f h)"
    unfolding run using r5 by (rule reaches_sortNotes(2))
  show "fst (applyFiltersAndSort rt now notes q f h) < fresh (snd (applyFiltersAndSort rt now notes q f h))"
    unfolding run using r5 by (rule reaches_sortNotes(3))
qed

subsection \<open>Sorting\<close>

lemma mset_insertSorted [simp]: "mset (insertSorted cmp x ys) = add_mset x (mset ys)"
  by (induction ys) auto

lemma mset_stableSort [simp]: "mset (stableSort cmp xs) = mset xs"
  by (induction xs) auto

lemma set_stableSort [simp]: "set (stableSort cmp xs) = set xs"
  by (metis mset_stableSort set_mset_mset)

lemma sorted_insertSorted:
  fixes key :: "'a \<Rightarrow> int"
  assumes agree: "\<And>a b. a \<in> A \<Longrightarrow> b \<in> A \<Longrightarrow> (sortCompare cmp a b \<le> 0) = (key a \<le> key b)"
    and "x \<in> A" "set ys \<subseteq> A" "sorted (map key ys)"
  shows "sorted (map key (insertSorted cmp x ys))"
  using assms(2-)
proof (induction ys)
  case Nil
  then show ?case by simp
next
  case (Cons y ys)
  show ?case
  proof (cases "sortCompare cmp x y \<le> 0")
    case True
    with Cons.prems have "key x \<le> key y" using agree [of x y] by simp
    with True Cons.prems show ?thesis by auto
  next
    case False
    with Cons.prems have "key y \<le> key x" using agree [of x y] by simp
    moreover have "set (insertSorted cmp x ys) = insert x (set ys)"
      by (metis mset_insertSorted set_mset_add_mset_insert set_mset_mset)
    ultimately show ?thesis using False Cons by auto
  qed
qed

lemma sorted_stableSort:
  fixes key :: "'a \<Rightarrow> int"
  assumes agree: "\<And>a b. a \<in> A \<Longrightarrow> b \<in> A \<Longrightarrow> (sortCompare cmp a b \<le> 0) = (key a \<le> key b)"
    and "set xs \<subseteq> A"
  shows "sorted (map key (stableSort cmp xs))"
  using assms(2)
proof (induction xs)
  case Nil
  then show ?case by simp
next
  case (Cons x xs)
  then show ?case
    using sorted_insertSorted [of A cmp key x "stableSort cmp xs"] agree by simp
qed

lemma stableSort_updatedLatestFirst:
  assumes "list_all (\<lambda>n. parseDate rt (updated_at n) \<noteq> None) xs"
  shows "updatedLatestFirst rt
    (stableSort (\<lambda>a b. timeDiff (parseDate rt (updated_at b)) (parseDate rt (updated_at a))) xs)"
proof -
  let ?cmp = "\<lambda>a b. timeDiff (parseDate rt (updated_at b)) (parseDate rt (updated_at a))"
  let ?key = "\<lambda>n. case parseDate rt (updated_at n) of None \<Rightarrow> 0 | Some t \<Rightarrow> - t"
  let ?A = "{n. parseDate rt (updated_at n) \<noteq> None}"
  have "(sortCompare ?cmp a b \<le> 0) = (?key a \<le> ?key b)" if "a \<in> ?A" "b \<in> ?A" for a b
    using that by (auto simp: sortCompare_def timeDiff_def)
  moreover have sub: "set xs \<subseteq> ?A"
    using assms by (auto simp: list_all_iff)
  ultimately have "sorted (map ?key (stableSort ?cmp xs))"
    by (rule sorted_stableSort)
  then have "sorted_wrt (\<lambda>a b. ?key a \<le> ?key b) (stableSort ?cmp xs)"
    by (simp add: sorted_map)
  then have "sorted_wrt (\<lambda>a b. case (parseDate rt (updated_at a), parseDate rt (updated_at b)) of
                          (Some ta, Some tb) \<Rightarrow> tb \<le> ta | _ \<Rightarrow> False) (stableSort ?cmp xs)"
  proof (rule sorted_wrt_mono_rel [rotated])
    fix a b
    assume "a \<in> set (stableSort ?cmp xs)" "b \<in> set (stableSort ?cmp xs)" "?key a \<le> ?key b"
    with sub show "case (parseDate rt (updated_at a), parseDate rt (updated_at b)) of
                          (Some ta, Some tb) \<Rightarrow> tb \<le> ta | _ \<Rightarrow> False"
      by (fastforce split: option.splits)
  qed
  moreover have "list_all (\<lambda>n. parseDate rt (updated_at n) \<noteq> None) (stableSort ?cmp xs)"
    using assms by (simp add: list_all_iff)
  ultimately show ?thesis by (simp add: updatedLatestFirst_def)
qed

lemma sortNotes_elements:
  "elements (sortNotes rt r opt h) = stableSort (comparator rt opt) (cells h r)"
  by (simp add: sortNotes_alt elements_def arraySort_def arrayCopy_def alloc_def)

lemma sortNotes_frame:
  "x < fresh h \<Longrightarrow> cells (snd (sortNotes rt r opt h)) x = cells h x"
  by (simp add: sortNotes_alt arraySort_def arrayCopy_def alloc_def)

text \<open>
  C8: for every array of notes, \<^verbatim>\<open>sortNotes\<close> with \<^verbatim>\<open>recent\<close> and with \<^verbatim>\<open>mostEdited\<close> return the
  same array in the same store, hence identical lists. The list is a permutation of the
  input, and descends by \<^verbatim>\<open>updated_at\<close> whenever every \<^verbatim>\<open>updated_at\<close> is a valid timestamp.
\<close>

theorem recent_and_mostEdited_agree:
  "sortNotes rt r Recent h = sortNotes rt r MostEdited h \<and>
   elements (sortNotes rt r Recent h) = elements (sortNotes rt r MostEdited h) \<and>
   mset (elements (sortNotes rt r Recent h)) = mset (cells h r) \<and>
   (list_all (\<lambda>n. parseDate rt (updated_at n) \<noteq> None) (cells h r) \<longrightarrow>
      updatedLatestFirst rt (elements (sortNotes rt r Recent h)) \<and>
      updatedLatestFirst rt (elements (sortNotes rt r MostEdited h)))"
proof -
  have same: "sortNotes rt r Recent h = sortNotes rt r MostEdited h"
    by (simp add: sortNotes_def)
  have perm: "mset (elements (sortNotes rt r Recent h)) = mset (cells h r)"
    by (simp add: sortNotes_elements)
  have "updatedLatestFirst rt (elements (sortNotes rt r Recent h))"
    if "list_all (\<lambda>n. parseDate rt (updated_at n) \<noteq> None) (cells h r)"
    using stableSort_updatedLatestFirst [OF that]
    by (simp add: sortNotes_elements comparator_def [abs_def])
  with same perm show ?thesis by simp
qed

theorem recent_and_mostEdited_agree_witness:
  "list_all (\<lambda>n. parseDate utcRuntime (updated_at n) \<noteq> None) (cells homeHeap 0) \<and>
   elements (sortNotes utcRuntime 0 Recent homeHeap) = [noteAlpha, noteBroken, noteZeta] \<and>
   elements (sortNotes utcRuntime 0 MostEdited homeHeap) = [noteAlpha, noteBroken, noteZeta] \<and>
   updatedLatestFirst utcRuntime [noteAlpha, noteBroken, noteZeta]"
proof -
  have valid: "list_all (\<lambda>n. parseDate utcRuntime (updated_at n) \<noteq> None) (cells homeHeap 0)"
    by (simp add: home_defs)
  have recent: "elements (sortNotes utcRuntime 0 Recent homeHeap) = [noteAlpha, noteBroken, noteZeta]"
    by (simp add: pipeline_defs home_defs)
  show ?thesis
    using recent_and_mostEdited_agree [of utcRuntime 0 homeHeap] valid recent by simp
qed

subsection \<open>The date filter\<close>

lemma filterByDate_elements:
  "elements (filterByDate rt now r df h) = filter (passesDateFilter rt now df) (cells h r)"
  using reaches_filterByDate [OF reaches_start, of h r rt now df]
  by (simp add: reaches_def elements_def)

text \<open>
  C6, as the specification states it, fails: the week and the month are counted back from
  local midnight, not from the current time. At 10:00 a note created 7 days and 5 hours
  earlier is outside the last 7 times 24 hours, and \<^verbatim>\<open>thisWeek\<close> keeps it.
\<close>

theorem filterByDate_thisWeek_older_than_seven_days:
  "elements (filterByDate utcRuntime nowUtc 0 ThisWeek homeHeap) = [noteZeta, noteAlpha] \<and>
   parseDate utcRuntime (created_at noteZeta) = Some 1704258000000 \<and>
   (1704258000000 :: int) < nowUtc - 7 * 24 * 60 * 60 * 1000 \<and>
   \<not> createdSince utcRuntime (nowUtc - 7 * 24 * 60 * 60 * 1000) noteZeta"
  by (simp add: pipeline_defs home_defs createdSince_def)

text \<open>
  C6, amended: evaluated at the current time, \<^verbatim>\<open>filterByDate\<close> keeps exactly the notes whose
  \<^verbatim>\<open>created_at\<close> is a valid timestamp at or after local midnight of the current day for
  \<^verbatim>\<open>today\<close>, at or after that midnight minus 7 times 24 hours for \<^verbatim>\<open>thisWeek\<close>, and at or
  after that midnight minus 30 times 24 hours for \<^verbatim>\<open>thisMonth\<close>; \<^verbatim>\<open>all\<close> keeps every note.
\<close>

theorem filterByDate_counts_from_midnight:
  "elements (filterByDate rt now r df h) =
     filter (\<lambda>n. case df of
                    AllDates \<Rightarrow> True
                  | Today \<Rightarrow> createdSince rt (startOfDay rt now) n
                  | ThisWeek \<Rightarrow> createdSince rt (startOfDay rt now - 604800000) n
                  | ThisMonth \<Rightarrow> createdSince rt (startOfDay rt now - 2592000000) n)
       (cells h r)"
proof -
  have "passesDateFilter rt now df n =
      (case df of
         AllDates \<Rightarrow> True
       | Today \<Rightarrow> createdSince rt (startOfDay rt now) n
       | ThisWeek \<Rightarrow> createdSince rt (startOfDay rt now - 604800000) n
       | ThisMonth \<Rightarrow> createdSince rt (startOfDay rt now - 2592000000) n)" for n
    by (cases df) (simp_all add: passesDateFilter_def keepsDate_def notBefore_def createdSince_def)
  then show ?thesis
    unfolding filterByDate_elements by (intro filter_cong refl)
qed

theorem filterByDate_counts_from_midnight_witness:
  "elements (filterByDate utcRuntime nowUtc 0 Today homeHeap) = [noteAlpha] \<and>
   elements (filterByDate utcRuntime nowUtc 0 ThisWeek homeHeap) = [noteZeta, noteAlpha] \<and>
   elements (filterByDate utcRuntime nowUtc 0 ThisMonth homeHeap) = [noteZeta, noteAlpha] \<and>
   elements (filterByDate utcRuntime nowUtc 0 AllDates homeHeap) = [noteZeta, noteAlpha, noteBroken] \<and>
   startOfDay utcRuntime nowUtc = 1704844800000 \<and>
   createdSince utcRuntime (startOfDay utcRuntime nowUtc - 604800000) noteZeta"
  using filterByDate_counts_from_midnight [of utcRuntime nowUtc 0 Today homeHeap]
    filterByDate_counts_from_midnight [of utcRuntime nowUtc 0 ThisWeek homeHeap]
    filterByDate_counts_from_midnight [of utcRuntime nowUtc 0 ThisMonth homeHeap]
    filterByDate_counts_from_midnight [of utcRuntime nowUtc 0 AllDates homeHeap]
  by (simp add: home_defs createdSince_def)

subsection \<open>The whole pipeline\<close>

lemma applyFiltersAndSort_elements:
  "elements (applyFiltersAndSort rt now notes q f h) = displayed rt now q f (cells h notes)"
  using applyFiltersAndSort_reaches(1) [of h "notes" rt now q f]
  by (simp add: reaches_def elements_def)

lemma applyFiltersAndSort_frame:
  "r < fresh h \<Longrightarrow> cells (snd (applyFiltersAndSort rt now notes q f h)) r = cells h r"
  using applyFiltersAndSort_reaches(1) [of h "notes" rt now q f]
  by (simp add: reaches_def)

text \<open>
  C7: for every array of notes and all criteria the pipeline returns an allocated array of
  notes of the input; no stage has a failing branch. A note whose \<^verbatim>\<open>created_at\<close> is not a valid
  timestamp is in no result of the date filters \<^verbatim>\<open>today\<close>, \<^verbatim>\<open>thisWeek\<close> and \<^verbatim>\<open>thisMonth\<close>; with
  the date filter \<^verbatim>\<open>all\<close>, which returns its input as it is, the note is in the result
  whenever it passes the other filters.
\<close>

theorem pipeline_total_on_malformed_dates:
  "fst (applyFiltersAndSort rt now notes q f h) < fresh (snd (applyFiltersAndSort rt now notes q f h)) \<and>
   set (elements (applyFiltersAndSort rt now notes q f h)) \<subseteq> set (cells h notes) \<and>
   (parseDate rt (created_at n) = None \<and> dateFilter f \<noteq> AllDates \<longrightarrow>
      n \<notin> set (elements (applyFiltersAndSort rt now notes q f h))) \<and>
   (dateFilter f = AllDates \<and> n \<in> set (cells h notes) \<and> passesOtherFilters rt q f n \<longrightarrow>
      n \<in> set (elements (applyFiltersAndSort rt now notes q f h))) \<and>
   elements (filterByDate rt now notes AllDates h) = cells h notes"
proof -
  have "\<not> passesDateFilter rt now df n" if "parseDate rt (created_at n) = None" "df \<noteq> AllDates" for df
    using that by (cases df) (simp_all add: passesDateFilter_def keepsDate_def notBefore_def)
  moreover have "passesDateFilter rt now AllDates n"
    by (simp add: passesDateFilter_def)
  moreover have "elements (filterByDate rt now notes AllDates h) = cells h notes"
    by (simp add: filterByDate_def elements_def)
  ultimately show ?thesis
    using applyFiltersAndSort_reaches(3) [of rt now "notes" q f h]
    by (auto simp: applyFiltersAndSort_elements displayed_def)
qed

theorem pipeline_total_on_malformed_dates_witness:
  "parseDate utcRuntime (created_at noteBroken) = None \<and>
   dateFilter weekFilter \<noteq> AllDates \<and>
   noteBroken \<notin> set (elements (applyFiltersAndSort utcRuntime nowUtc 0 [] weekFilter homeHeap)) \<and>
   dateFilter noFilters = AllDates \<and>
   noteBroken \<in> set (cells homeHeap 0) \<and>
   passesOtherFilters utcRuntime [] noFilters noteBroken \<and>
   noteBroken \<in> set (elements (applyFiltersAndSort utcRuntime nowUtc 0 [] noFilters homeHeap))"
proof -
  have broken: "parseDate utcRuntime (created_at noteBroken) = None \<and>
      dateFilter weekFilter \<noteq> AllDates"
    by (simp add: home_defs)
  have kept: "dateFilter noFilters = AllDates \<and> noteBroken \<in> set (cells homeHeap 0) \<and>
      passesOtherFilters utcRuntime [] noFilters noteBroken"
    by (simp add: homeHeap_def noFilters_def passesOtherFilters_def trim_def)
  show ?thesis
    using pipeline_total_on_malformed_dates
        [of utcRuntime nowUtc 0 "[]" weekFilter homeHeap noteBroken]
      pipeline_total_on_malformed_dates
        [of utcRuntime nowUtc 0 "[]" noFilters homeHeap noteBroken]
      broken kept
    by blast
qed

text \<open>
  C9: the list the pipeline yields depends on the notes in the input array, the criteria and
  the time only: two runs on arrays that hold the same notes, in whatever stores, yield
  identical lists, and so does a second run in the store that the first run left.
\<close>

theorem applyFiltersAndSort_deterministic:
  "(cells h1 notes1 = cells h2 notes2 \<longrightarrow>
      elements (applyFiltersAndSort rt now notes1 q f h1) =
      elements (applyFiltersAndSort rt now notes2 q f h2)) \<and>
   (notes < fresh h \<longrightarrow>
      elements (applyFiltersAndSort rt now notes q f (snd (applyFiltersAndSort rt now notes q f h))) =
      elements (applyFiltersAndSort rt now notes q f h))"
  by (simp add: applyFiltersAndSort_elements applyFiltersAndSort_frame)

theorem applyFiltersAndSort_deterministic_witness:
  "cells homeHeap 0 = cells otherHeap 3 \<and>
   elements (applyFiltersAndSort utcRuntime nowUtc 0 ''a'' weekFilter homeHeap) =
   elements (applyFiltersAndSort utcRuntime nowUtc 3 ''a'' weekFilter otherHeap) \<and>
   0 < fresh homeHeap \<and>
   elements (applyFiltersAndSort utcRuntime nowUtc 0 ''a'' weekFilter
      (snd (applyFiltersAndSort utcRuntime nowUtc 0 ''a'' weekFilter homeHeap))) =
   elements (applyFiltersAndSort utcRuntime nowUtc 0 ''a'' weekFilter homeHeap) \<and>
   elements (applyFiltersAndSort utcRuntime nowUtc 0 ''a'' weekFilter homeHeap) =
   [noteAlpha, noteZeta]"
proof -
  have same: "cells homeHeap 0 = cells otherHeap 3"
    by (simp add: homeHeap_def otherHeap_def)
  have allocated: "0 < fresh homeHeap"
    by (simp add: homeHeap_def)
  have run: "elements (applyFiltersAndSort utcRuntime nowUtc 0 ''a'' weekFilter homeHeap) =
      [noteAlpha, noteZeta]"
    by (simp add: pipeline_defs home_defs asciiLower_def includesText_def sublist_code)
  show ?thesis
    using applyFiltersAndSort_deterministic
        [of homeHeap 0 otherHeap 3 utcRuntime nowUtc "''a''" weekFilter 0 homeHeap]
      same allocated run
    by simp
qed

text \<open>
  C10: running the pipeline leaves every array that was allocated before the run as it was,
  the input array among them, and the array it returns is never the input array; likewise
  \<^verbatim>\<open>sortNotes\<close> leaves the array it is given as it was.
\<close>

theorem applyFiltersAndSort_leaves_input:
  "(r < fresh h \<longrightarrow> cells (snd (applyFiltersAndSort rt now notes q f h)) r = cells h r) \<and>
   (notes < fresh h \<longrightarrow>
      cells (snd (applyFiltersAndSort rt now notes q f h)) notes = cells h notes \<and>
      fst (applyFiltersAndSort rt now notes q f h) \<noteq> notes) \<and>
   (r < fresh h \<longrightarrow> cells (snd (sortNotes rt notes opt h)) r = cells h r)"
  using applyFiltersAndSort_reaches(2) [of h rt now "notes" q f]
  by (auto simp: applyFiltersAndSort_frame sortNotes_frame)

theorem applyFiltersAndSort_leaves_input_witness:
  "0 < fresh homeHeap \<and>
   cells (snd (applyFiltersAndSort utcRuntime nowUtc 0 [] noFilters homeHeap)) 0 =
     [noteZeta, noteAlpha, noteBroken] \<and>
   fst (applyFiltersAndSort utcRuntime nowUtc 0 [] noFilters homeHeap) \<noteq> 0 \<and>
   elements (applyFiltersAndSort utcRuntime nowUtc 0 [] noFilters homeHeap) =
     [noteAlpha, noteBroken, noteZeta] \<and>
   cells (snd (sortNotes utcRuntime 0 Recent homeHeap)) 0 = [noteZeta, noteAlpha, noteBroken]"
proof -
  have allocated: "0 < fresh homeHeap"
    by (simp add: homeHeap_def)
  have before: "cells homeHeap 0 = [noteZeta, noteAlpha, noteBroken]"
    by (simp add: homeHeap_def)
  have run: "elements (applyFiltersAndSort utcRuntime nowUtc 0 [] noFilters homeHeap) =
      [noteAlpha, noteBroken, noteZeta]"
    by (simp add: pipeline_defs home_defs)
  show ?thesis
    using applyFiltersAndSort_leaves_input
        [of 0 homeHeap utcRuntime nowUtc 0 "[]" noFilters Recent]
      allocated before run
    by simp
qed

end
